theory Spec2Isabelle
  imports Complex_Main
begin

section \<open>Values of the numerical arrays\<close>

text \<open>
  The arrays of \<^verbatim>\<open>msd.py\<close> hold double-precision numbers. The analysis routines
  depend on the special values (the region records start as NaN, \<^verbatim>\<open>np.log\<close> of a
  non-positive number is \<^verbatim>\<open>-inf\<close> or NaN, \<^verbatim>\<open>min_value\<close> starts as \<^verbatim>\<open>inf\<close>), so a
  number is a finite real or one of the three special values. Arithmetic on finite values
  is exact: rounding and overflow are not part of the model, and zero carries no sign
  (a division of a non-zero finite number by zero gives the infinity of the sign of the
  numerator).
\<close>

datatype fl = Fin real | PInf | NInf | NaN

fun isnan :: "fl \<Rightarrow> bool" where
  "isnan NaN = True"
| "isnan _ = False"

fun isinf :: "fl \<Rightarrow> bool" where
  "isinf PInf = True"
| "isinf NInf = True"
| "isinf _ = False"

fun fneg :: "fl \<Rightarrow> fl" where
  "fneg (Fin a) = Fin (- a)"
| "fneg PInf = NInf"
| "fneg NInf = PInf"
| "fneg NaN = NaN"

fun fadd :: "fl \<Rightarrow> fl \<Rightarrow> fl" where
  "fadd (Fin a) (Fin b) = Fin (a + b)"
| "fadd (Fin a) PInf = PInf"
| "fadd (Fin a) NInf = NInf"
| "fadd PInf (Fin b) = PInf"
| "fadd PInf PInf = PInf"
| "fadd NInf (Fin b) = NInf"
| "fadd NInf NInf = NInf"
| "fadd _ _ = NaN"

definition fsub :: "fl \<Rightarrow> fl \<Rightarrow> fl" where
  "fsub a b = fadd a (fneg b)"

text \<open>The infinity with the sign of a non-zero real; NaN for zero.\<close>

definition signed_inf :: "real \<Rightarrow> fl" where
  "signed_inf s = (if 0 < s then PInf else if s < 0 then NInf else NaN)"

fun fmul :: "fl \<Rightarrow> fl \<Rightarrow> fl" where
  "fmul (Fin a) (Fin b) = Fin (a * b)"
| "fmul (Fin a) PInf = signed_inf a"
| "fmul (Fin a) NInf = signed_inf (- a)"
| "fmul PInf (Fin b) = signed_inf b"
| "fmul NInf (Fin b) = signed_inf (- b)"
| "fmul PInf PInf = PInf"
| "fmul NInf NInf = PInf"
| "fmul PInf NInf = NInf"
| "fmul NInf PInf = NInf"
| "fmul _ _ = NaN"

fun fdiv :: "fl \<Rightarrow> fl \<Rightarrow> fl" where
  "fdiv (Fin a) (Fin b) = (if b = 0 then signed_inf a else Fin (a / b))"
| "fdiv (Fin a) PInf = Fin 0"
| "fdiv (Fin a) NInf = Fin 0"
| "fdiv PInf (Fin b) = (if 0 \<le> b then PInf else NInf)"
| "fdiv NInf (Fin b) = (if 0 \<le> b then NInf else PInf)"
| "fdiv _ _ = NaN"

fun fabs :: "fl \<Rightarrow> fl" where
  "fabs (Fin a) = Fin \<bar>a\<bar>"
| "fabs PInf = PInf"
| "fabs NInf = PInf"
| "fabs NaN = NaN"

fun fsqrt :: "fl \<Rightarrow> fl" where
  "fsqrt (Fin a) = (if 0 \<le> a then Fin (sqrt a) else NaN)"
| "fsqrt PInf = PInf"
| "fsqrt _ = NaN"

text \<open>\<^verbatim>\<open>np.log\<close> and \<^verbatim>\<open>np.log10\<close>: \<^verbatim>\<open>-inf\<close> at zero, NaN below it.\<close>

fun flog :: "fl \<Rightarrow> fl" where
  "flog (Fin a) = (if 0 < a then Fin (ln a) else if a = 0 then NInf else NaN)"
| "flog PInf = PInf"
| "flog _ = NaN"

fun flog10 :: "fl \<Rightarrow> fl" where
  "flog10 (Fin a) = (if 0 < a then Fin (log 10 a) else if a = 0 then NInf else NaN)"
| "flog10 PInf = PInf"
| "flog10 _ = NaN"

text \<open>Comparisons: every comparison with NaN is false.\<close>

fun flt :: "fl \<Rightarrow> fl \<Rightarrow> bool" where
  "flt (Fin a) (Fin b) = (a < b)"
| "flt (Fin a) PInf = True"
| "flt NInf (Fin b) = True"
| "flt NInf PInf = True"
| "flt _ _ = False"

fun feq :: "fl \<Rightarrow> fl \<Rightarrow> bool" where
  "feq (Fin a) (Fin b) = (a = b)"
| "feq PInf PInf = True"
| "feq NInf NInf = True"
| "feq _ _ = False"

definition fgt :: "fl \<Rightarrow> fl \<Rightarrow> bool" where
  "fgt a b = flt b a"

definition fle :: "fl \<Rightarrow> fl \<Rightarrow> bool" where
  "fle a b = (flt a b \<or> feq a b)"

definition fge :: "fl \<Rightarrow> fl \<Rightarrow> bool" where
  "fge a b = fle b a"

section \<open>Python values: errors, slices, ranges\<close>

datatype error = ValueError string | IndexError

text \<open>
  \<^verbatim>\<open>int(r)\<close> truncates towards zero; \<^verbatim>\<open>xs[a:b]\<close> counts a negative index from the end
  and clamps both ends into the list.
\<close>

definition py_int :: "real \<Rightarrow> int" where
  "py_int r = (if 0 \<le> r then \<lfloor>r\<rfloor> else \<lceil>r\<rceil>)"

definition slice_index :: "nat \<Rightarrow> int \<Rightarrow> nat" where
  "slice_index n i = (if i < 0 then nat (int n + i) else min n (nat i))"

definition py_slice :: "'a list \<Rightarrow> int \<Rightarrow> int \<Rightarrow> 'a list" where
  "py_slice xs a b =
     (let lo = slice_index (length xs) a; hi = slice_index (length xs) b
      in take (hi - lo) (drop lo xs))"

text \<open>\<^verbatim>\<open>np.where(cond)[0]\<close>: the indices at which the condition holds, ascending.\<close>

fun where_from :: "nat \<Rightarrow> ('a \<Rightarrow> bool) \<Rightarrow> 'a list \<Rightarrow> nat list" where
  "where_from k P [] = []"
| "where_from k P (x # xs) =
     (if P x then k # where_from (Suc k) P xs else where_from (Suc k) P xs)"

definition np_where :: "('a \<Rightarrow> bool) \<Rightarrow> 'a list \<Rightarrow> nat list" where
  "np_where P xs = where_from 0 P xs"

text \<open>\<^verbatim>\<open>range(start, stop, step)\<close>; a zero step is a ValueError.\<close>

definition py_range :: "int \<Rightarrow> int \<Rightarrow> int \<Rightarrow> error + int list" where
  "py_range start stop step =
     (if step = 0 then Inl (ValueError ''range() arg 3 must not be zero'')
      else if 0 < step then
        Inr (map (\<lambda>k. start + int k * step) [0..<nat ((stop - start + step - 1) div step)])
      else
        Inr (map (\<lambda>k. start + int k * step) [0..<nat ((start - stop - step - 1) div (- step))]))"

section \<open>Region search: preprocessing (msd.py, find\_diffusivity, lines 390--414)\<close>

text \<open>
  The two bounds are \<^verbatim>\<open>None\<close> or a number. A bound is applied when it is neither
  \<^verbatim>\<open>None\<close> nor NaN.
\<close>

definition bound_given :: "fl option \<Rightarrow> bool" where
  "bound_given b = (case b of None \<Rightarrow> False | Some v \<Rightarrow> \<not> isnan v)"

text \<open>Lines 393--394: both arrays are cut to \<^verbatim>\<open>int(len(time)*use_frac)\<close> entries.\<close>

definition truncate_frac :: "fl list \<Rightarrow> fl list \<Rightarrow> real \<Rightarrow> fl list \<times> fl list" where
  "truncate_frac time msd use_frac =
     (let k = py_int (real (length time) * use_frac)
      in (py_slice time 0 k, py_slice msd 0 k))"

text \<open>Lines 395--402: the lower bound.\<close>

definition clip_lower :: "fl list \<times> fl list \<Rightarrow> fl option \<Rightarrow> error + fl list \<times> fl list" where
  "clip_lower tm b =
     (case tm of (time, msd) \<Rightarrow>
        if bound_given b then
          (case np_where (\<lambda>t. fgt t (the b)) time of
             [] \<Rightarrow> Inl (ValueError
                ''Provided minimum in time is greater that the time interval provided'')
           | ind # _ \<Rightarrow> Inr (drop ind time, drop ind msd))
        else Inr (time, msd))"

text \<open>
  Lines 403--410: the upper bound. The arrays are cut at \<^verbatim>\<open>inds[0]\<close>, the first index
  whose time lies below the bound.
\<close>

definition clip_upper :: "fl list \<times> fl list \<Rightarrow> fl option \<Rightarrow> error + fl list \<times> fl list" where
  "clip_upper tm b =
     (case tm of (time, msd) \<Rightarrow>
        if bound_given b then
          (case np_where (\<lambda>t. flt t (the b)) time of
             [] \<Rightarrow> Inl (ValueError
                ''Provided maximum in time is greater that the time interval provided'')
           | ind # _ \<Rightarrow> Inr (take ind time, take ind msd))
        else Inr (time, msd))"

text \<open>Lines 390--410 together; the result is the pair (time, msd) that is scanned.\<close>

definition find_diffusivity_prep ::
  "fl list \<Rightarrow> fl list \<Rightarrow> real \<Rightarrow> fl option \<times> fl option \<Rightarrow> error + fl list \<times> fl list" where
  "find_diffusivity_prep time msd use_frac bounds =
     (if length msd \<noteq> length time
      then Inl (ValueError ''Arrays for time and msd are not of equal length.'')
      else case clip_lower (truncate_frac time msd use_frac) (fst bounds) of
             Inl e \<Rightarrow> Inl e
           | Inr tm \<Rightarrow> clip_upper tm (snd bounds))"

section \<open>Single-window primitive (msd.py, diffusivity, lines 552--567)\<close>

text \<open>
  \<^verbatim>\<open>np.sum\<close>, \<^verbatim>\<open>np.mean\<close>, \<^verbatim>\<open>np.amax\<close> and \<^verbatim>\<open>np.amin\<close> on a one-dimensional array. A NaN
  entry makes each of them NaN.
\<close>

definition np_sum :: "fl list \<Rightarrow> fl" where
  "np_sum xs = foldr fadd xs (Fin 0)"

definition np_mean :: "fl list \<Rightarrow> fl" where
  "np_mean xs = fdiv (np_sum xs) (Fin (real (length xs)))"

definition fmax2 :: "fl \<Rightarrow> fl \<Rightarrow> fl" where
  "fmax2 a b = (if isnan a \<or> isnan b then NaN else if flt a b then b else a)"

definition fmin2 :: "fl \<Rightarrow> fl \<Rightarrow> fl" where
  "fmin2 a b = (if isnan a \<or> isnan b then NaN else if flt b a then b else a)"

definition np_amax :: "fl list \<Rightarrow> fl" where
  "np_amax xs = (case xs of [] \<Rightarrow> NaN | x # r \<Rightarrow> foldl fmax2 x r)"

definition np_amin :: "fl list \<Rightarrow> fl" where
  "np_amin xs = (case xs of [] \<Rightarrow> NaN | x # r \<Rightarrow> foldl fmin2 x r)"

text \<open>
  \<^verbatim>\<open>scipy.stats.linregress(x, y)\<close> is library code. The model follows the algorithm of
  the library: it refuses empty input and input whose x values are all identical (when
  there is more than one); the slope is \<^verbatim>\<open>ssxym / ssxm\<close> and the correlation coefficient
  \<^verbatim>\<open>ssxym / sqrt(ssxm * ssym)\<close>, clipped to [-1, 1] and set to 0.0 when \<^verbatim>\<open>ssxm\<close> or \<^verbatim>\<open>ssym\<close>
  is zero, where \<^verbatim>\<open>ssxm\<close>, \<^verbatim>\<open>ssxym\<close>, \<^verbatim>\<open>ssym\<close> are the entries of \<^verbatim>\<open>np.cov(x, y, bias=1)\<close>;
  the standard error of the slope is \<^verbatim>\<open>sqrt((1 - r**2) * ssym / ssxm / (n - 2))\<close>, and 0.0
  for two points. The p-value and the standard error of the intercept are not used by
  \<^verbatim>\<open>msd.py\<close> and are left out.
\<close>

record linregress_result =
  slope :: fl
  intercept :: fl
  rvalue :: fl
  stderr :: fl

definition centered :: "fl list \<Rightarrow> fl list" where
  "centered xs = map (\<lambda>x. fsub x (np_mean xs)) xs"

definition cov_entry :: "fl list \<Rightarrow> fl list \<Rightarrow> fl" where
  "cov_entry xs ys =
     fdiv (np_sum (map2 fmul (centered xs) (centered ys))) (Fin (real (length xs)))"

definition linregress :: "fl list \<Rightarrow> fl list \<Rightarrow> error + linregress_result" where
  "linregress x y =
     (if x = [] \<or> y = [] then Inl (ValueError ''Inputs must not be empty.'')
      else if feq (np_amax x) (np_amin x) \<and> 1 < length x
      then Inl (ValueError
        ''Cannot calculate a linear regression if all x values are identical'')
      else if length x \<noteq> length y
      then Inl (ValueError ''all the input array dimensions must match exactly'')
      else
        let n = length x;
            xmean = np_mean x;
            ymean = np_mean y;
            ssxm = cov_entry x x;
            ssxym = cov_entry x y;
            ssym = cov_entry y y;
            r = (if feq ssxm (Fin 0) \<or> feq ssym (Fin 0) then Fin 0
                 else let r0 = fdiv ssxym (fsqrt (fmul ssxm ssym))
                      in if fgt r0 (Fin 1) then Fin 1
                         else if flt r0 (Fin (- 1)) then Fin (- 1) else r0);
            sl = fdiv ssxym ssxm;
            ic = fsub ymean (fmul sl xmean);
            se = (if n = 2 then Fin 0
                  else fsqrt (fdiv (fdiv (fmul (fsub (Fin 1) (fmul r r)) ssym) ssxm)
                                   (Fin (real_of_int (int n - 2)))))
        in Inr \<lparr>slope = sl, intercept = ic, rvalue = r, stderr = se\<rparr>)"

text \<open>
  \<^verbatim>\<open>diffusivity(time, msd, dim)\<close> returns
  \<^verbatim>\<open>(diffusivity, sterror, exponent, intercept, r_squared)\<close>. The exponent and
  \<^verbatim>\<open>r_squared\<close> come from the regression of \<^verbatim>\<open>np.log(msd[1:]-msd[0])\<close> against
  \<^verbatim>\<open>np.log(time[1:]-time[0])\<close>; reading entry 0 of an empty array is an IndexError.
\<close>

definition diffusivity ::
  "fl list \<Rightarrow> fl list \<Rightarrow> int \<Rightarrow> error + fl \<times> fl \<times> fl \<times> fl \<times> fl" where
  "diffusivity time msd ndim =
     (if length msd \<noteq> length time
      then Inl (ValueError ''Arrays for time and msd are not of equal length.'')
      else case time of
        [] \<Rightarrow> Inl IndexError
      | t0 # trest \<Rightarrow>
         (case msd of
            [] \<Rightarrow> Inl IndexError
          | m0 # mrest \<Rightarrow>
             let t_log = map (\<lambda>t. flog (fsub t t0)) trest;
                 msd_log = map (\<lambda>m. flog (fsub m m0)) mrest
             in case linregress t_log msd_log of
                  Inl e \<Rightarrow> Inl e
                | Inr res1 \<Rightarrow>
                   (case linregress time msd of
                      Inl e \<Rightarrow> Inl e
                    | Inr res2 \<Rightarrow>
                       Inr (fdiv (fdiv (slope res2) (Fin 2)) (Fin (real_of_int ndim)),
                            fdiv (fdiv (stderr res2) (Fin 2)) (Fin (real_of_int ndim)),
                            slope res1,
                            intercept res2,
                            fmul (rvalue res1) (rvalue res1)))))"

section \<open>Region search: the scan (msd.py, find\_diffusivity, lines 412--430, 460)\<close>

text \<open>
  A region record is the array
  \<^verbatim>\<open>[d_tmp, stder_tmp, t_tmp[0], t_tmp[-1], exp_tmp, intercept, npts]\<close>: entry 4 is the
  exponent and the last entry the number of points. Both records start as seven NaN.
\<close>

definition nan_record :: "fl list" where
  "nan_record = replicate 7 NaN"

datatype warning = ResetMinNpts int nat | NoCagedRegion

text \<open>Line 425: the condition under which \<^verbatim>\<open>best\<close> is overwritten.\<close>

definition best_cond :: "fl list \<Rightarrow> fl \<Rightarrow> bool" where
  "best_cond best exp_tmp =
     (flt (fabs (fsub exp_tmp (Fin 1))) (fabs (fsub (best ! 4) (Fin 1))) \<or> isnan (best ! 4))"

text \<open>Lines 428--429: the two nested conditions under which \<^verbatim>\<open>longest\<close> is overwritten.\<close>

definition longest_cond :: "fl list \<Rightarrow> fl \<Rightarrow> fl \<Rightarrow> int \<Rightarrow> bool" where
  "longest_cond longest min_exp exp_tmp npts =
     (((fge exp_tmp min_exp \<and> fle (last longest) (Fin (real_of_int npts)))
        \<or> isnan (longest ! 4))
      \<and> ((flt (last longest) (Fin (real_of_int npts))
           \<or> fgt (fabs (fsub (longest ! 4) (Fin 1))) (fabs (fsub exp_tmp (Fin 1))))
          \<or> isnan (longest ! 4)))"

text \<open>
  Lines 420--430: the body of the inner loop, for the window of \<^verbatim>\<open>npts\<close> points that
  starts at index \<^verbatim>\<open>i\<close>. The state is the pair (best, longest).
\<close>

definition scan_window ::
  "fl list \<Rightarrow> fl list \<Rightarrow> int \<Rightarrow> fl \<Rightarrow> fl \<Rightarrow> int \<Rightarrow> int \<Rightarrow> fl list \<times> fl list
     \<Rightarrow> error + fl list \<times> fl list" where
  "scan_window time msd ndim min_exp min_R2 npts i st =
     (let t_tmp = py_slice time i (i + npts);
          msd_tmp = py_slice msd i (i + npts)
      in case diffusivity t_tmp msd_tmp ndim of
           Inl e \<Rightarrow> Inl e
         | Inr (d_tmp, stder_tmp, exp_tmp, icpt, r2_tmp) \<Rightarrow>
            if fgt r2_tmp min_R2 then
              (case t_tmp of
                 [] \<Rightarrow> Inl IndexError
               | t_first # _ \<Rightarrow>
                  let cand = [d_tmp, stder_tmp, t_first, last t_tmp, exp_tmp, icpt,
                              Fin (real_of_int npts)]
                  in Inr (if best_cond (fst st) exp_tmp then cand else fst st,
                          if longest_cond (snd st) min_exp exp_tmp npts then cand else snd st))
            else Inr st)"

text \<open>Line 419: the inner loop over the start indices.\<close>

fun scan_starts ::
  "fl list \<Rightarrow> fl list \<Rightarrow> int \<Rightarrow> fl \<Rightarrow> fl \<Rightarrow> int \<Rightarrow> int list \<Rightarrow> fl list \<times> fl list
     \<Rightarrow> error + fl list \<times> fl list" where
  "scan_starts time msd ndim min_exp min_R2 npts [] st = Inr st"
| "scan_starts time msd ndim min_exp min_R2 npts (i # rest) st =
     (case scan_window time msd ndim min_exp min_R2 npts i st of
        Inl e \<Rightarrow> Inl e
      | Inr st' \<Rightarrow> scan_starts time msd ndim min_exp min_R2 npts rest st')"

text \<open>Line 418: the outer loop over the window sizes.\<close>

fun scan_sizes ::
  "fl list \<Rightarrow> fl list \<Rightarrow> int \<Rightarrow> fl \<Rightarrow> fl \<Rightarrow> int \<Rightarrow> int list \<Rightarrow> fl list \<times> fl list
     \<Rightarrow> error + fl list \<times> fl list" where
  "scan_sizes time msd ndim min_exp min_R2 skip [] st = Inr st"
| "scan_sizes time msd ndim min_exp min_R2 skip (npts # rest) st =
     (case py_range 0 (int (length time) - npts) skip of
        Inl e \<Rightarrow> Inl e
      | Inr starts \<Rightarrow>
         (case scan_starts time msd ndim min_exp min_R2 npts starts st of
            Inl e \<Rightarrow> Inl e
          | Inr st' \<Rightarrow> scan_sizes time msd ndim min_exp min_R2 skip rest st'))"

text \<open>Lines 412--414: a minimum window size above the number of points is reset.\<close>

definition effective_min_Npts :: "int \<Rightarrow> nat \<Rightarrow> int" where
  "effective_min_Npts min_Npts n = (if int n < min_Npts then int n - 1 else min_Npts)"

text \<open>
  \<^verbatim>\<open>find_diffusivity\<close> with \<^verbatim>\<open>show_plot\<close>, \<^verbatim>\<open>save_plot\<close> and \<^verbatim>\<open>verbose\<close> off. The result is
  (best, longest) and the warnings emitted.
\<close>

definition find_diffusivity ::
  "fl list \<Rightarrow> fl list \<Rightarrow> fl \<Rightarrow> int \<Rightarrow> int \<Rightarrow> int \<Rightarrow> real \<Rightarrow> fl \<Rightarrow> fl option \<times> fl option
     \<Rightarrow> error + (fl list \<times> fl list) \<times> warning list" where
  "find_diffusivity time msd min_exp min_Npts skip ndim use_frac min_R2 bounds =
     (case find_diffusivity_prep time msd use_frac bounds of
        Inl e \<Rightarrow> Inl e
      | Inr (time', msd') \<Rightarrow>
         let n = length time';
             warns = (if int n < min_Npts then [ResetMinNpts min_Npts n] else [])
         in case py_range (effective_min_Npts min_Npts n) (int n) skip of
              Inl e \<Rightarrow> Inl e
            | Inr sizes \<Rightarrow>
               (case scan_sizes time' msd' ndim min_exp min_R2 skip sizes
                       (nan_record, nan_record) of
                  Inl e \<Rightarrow> Inl e
                | Inr st \<Rightarrow> Inr (st, warns)))"

section \<open>Region search: the windows of the scan and their records\<close>

text \<open>
  The properties of the region search are stated over the windows that the two loops
  visit. A window is the pair (\<^verbatim>\<open>npts\<close>, \<^verbatim>\<open>i\<close>) of its size and its start index;
  \<open>size_windows\<close> lists the windows of one size in the order of the inner loop and
  \<open>scanned_windows\<close> all windows in the order of the scan.
\<close>

definition size_windows :: "nat \<Rightarrow> int \<Rightarrow> int \<Rightarrow> (int \<times> int) list" where
  "size_windows n skip npts =
     (case py_range 0 (int n - npts) skip of Inl e \<Rightarrow> [] | Inr starts \<Rightarrow> map (Pair npts) starts)"

definition scanned_windows :: "nat \<Rightarrow> int \<Rightarrow> int \<Rightarrow> (int \<times> int) list" where
  "scanned_windows n min_Npts skip =
     (case py_range (effective_min_Npts min_Npts n) (int n) skip of
        Inl e \<Rightarrow> []
      | Inr sizes \<Rightarrow> concat (map (size_windows n skip) sizes))"

text \<open>
  \<open>window_cand\<close> is the record that the loop body (lines 420--430) builds for a window
  whose fit succeeds with \<^verbatim>\<open>r2_tmp > min_R2\<close>, and \<open>None\<close> for every other window.
\<close>

definition window_cand :: "fl list \<Rightarrow> fl list \<Rightarrow> int \<Rightarrow> fl \<Rightarrow> int \<times> int \<Rightarrow> fl list option" where
  "window_cand time msd ndim min_R2 w =
     (let t_tmp = py_slice time (snd w) (snd w + fst w);
          msd_tmp = py_slice msd (snd w) (snd w + fst w)
      in case diffusivity t_tmp msd_tmp ndim of
           Inl e \<Rightarrow> None
         | Inr (d_tmp, stder_tmp, exp_tmp, icpt, r2_tmp) \<Rightarrow>
             if fgt r2_tmp min_R2 then
               (case t_tmp of
                  [] \<Rightarrow> None
                | t_first # _ \<Rightarrow>
                    Some [d_tmp, stder_tmp, t_first, last t_tmp, exp_tmp, icpt,
                          Fin (real_of_int (fst w))])
             else None)"

text \<open>
  The records of the windows that pass the gate, each with its size, in the order of the
  scan; and the two updates of lines 425--430 as steps over that list.
\<close>

definition cands :: "fl list \<Rightarrow> fl list \<Rightarrow> int \<Rightarrow> fl \<Rightarrow> (int \<times> int) list \<Rightarrow> (int \<times> fl list) list" where
  "cands time msd ndim min_R2 ws =
     List.map_filter (\<lambda>w. map_option (Pair (fst w)) (window_cand time msd ndim min_R2 w)) ws"

definition best_step :: "fl list \<Rightarrow> fl list \<Rightarrow> fl list" where
  "best_step b c = (if best_cond b (c ! 4) then c else b)"

definition longest_step :: "fl \<Rightarrow> fl list \<Rightarrow> int \<times> fl list \<Rightarrow> fl list" where
  "longest_step min_exp l nc = (if longest_cond l min_exp (snd nc ! 4) (fst nc) then snd nc else l)"

definition region_step :: "fl \<Rightarrow> fl list \<times> fl list \<Rightarrow> int \<times> fl list \<Rightarrow> fl list \<times> fl list" where
  "region_step min_exp st nc = (best_step (fst st) (snd nc), longest_step min_exp (snd st) nc)"

text \<open>
  An exponent \<open>e1\<close> is closer to 1.0 than \<open>e2\<close> when \<^verbatim>\<open>abs(e1 - 1.0) < abs(e2 - 1.0)\<close>; this
  is the comparison of lines 425 and 429.
\<close>

definition closer :: "fl \<Rightarrow> fl \<Rightarrow> bool" where
  "closer e1 e2 = flt (fabs (fsub e1 (Fin 1))) (fabs (fsub e2 (Fin 1)))"

text \<open>
  The record of the window of the times 0, 1, 4 with the values 0, 1, 2 in three
  dimensions, used in the examples below.
\<close>

definition example_record :: "fl list" where
  "example_record =
     [Fin (1 / 13), Fin (sqrt (3 / 169) / 6), Fin 0, Fin 4, Fin (1 / 2), Fin (3 / 13), Fin 3]"

section \<open>Splines of the fitting library\<close>

text \<open>
  \<^verbatim>\<open>scipy.interpolate.InterpolatedUnivariateSpline\<close> and
  \<^verbatim>\<open>scipy.ndimage.gaussian_filter1d\<close> are library code. A fitted spline is used through
  three methods only: it is called at a point, \<^verbatim>\<open>roots()\<close> lists its roots, and
  \<^verbatim>\<open>derivative()\<close> is again such an object. The fit \<^verbatim>\<open>InterpolatedUnivariateSpline(x, y, k)\<close>
  (which may raise) and the filter \<^verbatim>\<open>gaussian_filter1d(y, sigma)\<close> are arguments \<open>ius\<close> and
  \<open>gf\<close> of the functions that use them. The values of a spline are taken to be finite.
\<close>

codatatype spline = Spline (call: "real \<Rightarrow> real") (roots: "real list") (derivative: spline)

type_synonym fit = "fl list \<Rightarrow> fl list \<Rightarrow> nat \<Rightarrow> error + spline"

type_synonym smoother = "fl list \<Rightarrow> real \<Rightarrow> fl list"

text \<open>
  A spline object given by the values and the roots of its derivatives, from the
  \<open>n\<close>-th on; used to build examples.
\<close>

primcorec spline_of :: "(nat \<Rightarrow> real \<Rightarrow> real) \<Rightarrow> (nat \<Rightarrow> real list) \<Rightarrow> nat \<Rightarrow> spline" where
  "call (spline_of f r n) = f n"
| "roots (spline_of f r n) = r n"
| "derivative (spline_of f r n) = spline_of f r (Suc n)"

section \<open>Extrema analysis (fit\_data.py, pull\_extrema, lines 157--192, 213)\<close>

text \<open>\<^verbatim>\<open>"{}".format(n)\<close> for a natural number: its decimal digits.\<close>

fun show_nat :: "nat \<Rightarrow> string" where
  "show_nat n =
     (if n < 10 then [''0123456789'' ! n]
      else show_nat (n div 10) @ [''0123456789'' ! (n mod 10)])"

declare show_nat.simps [simp del]

text \<open>
  \<^verbatim>\<open>pull_extrema\<close> with \<^verbatim>\<open>show_plot\<close> and \<^verbatim>\<open>save_plot\<close> off. The three results are lists of
  (location, value) pairs, the columns of the arrays that the function returns.
\<close>

definition pull_extrema ::
  "fit \<Rightarrow> smoother \<Rightarrow> fl list \<Rightarrow> fl list \<Rightarrow> real option \<Rightarrow> int \<Rightarrow> real
     \<Rightarrow> error + (real \<times> real) list \<times> (real \<times> real) list \<times> (real \<times> real) list" where
  "pull_extrema ius gf xarray yarray smooth_sigma error_length extrema_cutoff =
     (let yarray' = (case smooth_sigma of None \<Rightarrow> yarray | Some s \<Rightarrow> gf yarray s)
      in case ius xarray yarray' 4 of
           Inl e \<Rightarrow> Inl e
         | Inr spline \<Rightarrow>
            let extrema = filter (\<lambda>x. extrema_cutoff < \<bar>call spline x\<bar>)
                            (roots (derivative spline))
            in if error_length < int (length extrema)
               then Inl (ValueError (''Found '' @ show_nat (length extrema) @
                 '' extrema, consider smoothing the data with `smooth_sigma` option.''))
               else
                 let tmp_spline = derivative (derivative spline);
                     minima = map (\<lambda>r. (r, call spline r))
                                (filter (\<lambda>r. 0 < call tmp_spline r) extrema);
                     maxima = map (\<lambda>r. (r, call spline r))
                                (filter (\<lambda>r. \<not> 0 < call tmp_spline r) extrema)
                 in case ius xarray yarray' 5 of
                      Inl e \<Rightarrow> Inl e
                    | Inr spline5 \<Rightarrow>
                       Inr (minima, maxima,
                            map (\<lambda>r. (r, call spline r))
                              (filter (\<lambda>x. extrema_cutoff < \<bar>call spline x\<bar>)
                                 (roots (derivative (derivative spline5))))))"

section \<open>Debye-Waller extractor (msd.py, debye\_waller, lines 241--281, 320)\<close>

text \<open>
  Lines 241--255: the two arrays are cut to \<^verbatim>\<open>use_frac\<close>, taken to \<^verbatim>\<open>log10\<close>, lose their
  first entry when \<^verbatim>\<open>logmsd[0]\<close> is NaN or \<^verbatim>\<open>logtime[0]\<close> infinite, and \<^verbatim>\<open>logmsd\<close> is
  smoothed on request; data that is NaN throughout is refused.
\<close>

definition dw_prep ::
  "smoother \<Rightarrow> fl list \<Rightarrow> fl list \<Rightarrow> real \<Rightarrow> real option \<Rightarrow> error + fl list \<times> fl list" where
  "dw_prep gf time msd use_frac sigma_spline =
     (if length msd \<noteq> length time
      then Inl (ValueError ''Arrays for time and msd are not of equal length.'')
      else
        let tm = truncate_frac time msd use_frac;
            logtime = map flog10 (fst tm);
            logmsd = map flog10 (snd tm)
        in case logmsd of
             [] \<Rightarrow> Inl IndexError
           | lm0 # lmrest \<Rightarrow>
              (case logtime of
                 [] \<Rightarrow> Inl IndexError
               | lt0 # ltrest \<Rightarrow>
                  let cut = (isnan lm0 \<or> isinf lt0);
                      logtime' = (if cut then ltrest else logtime);
                      logmsd' = (if cut then lmrest else logmsd);
                      logmsd'' = (case sigma_spline of None \<Rightarrow> logmsd'
                                                     | Some s \<Rightarrow> gf logmsd' s)
                  in if list_all isnan logmsd''
                     then Inl (ValueError ''Spline could not be created with provided data'')
                     else Inr (logtime', logmsd'')))"

definition n_min :: nat where
  "n_min = 50"

text \<open>
  Lines 266--274: the loop over the roots of the second derivative. The state is the
  counter \<^verbatim>\<open>i\<close> and the arrays \<^verbatim>\<open>dw\<close>, \<^verbatim>\<open>tau\<close> and \<^verbatim>\<open>min_value\<close>; the loop stops when the
  counter reaches \<^verbatim>\<open>n_min\<close>.
\<close>

fun dw_loop ::
  "spline \<Rightarrow> spline \<Rightarrow> spline \<Rightarrow> real list \<Rightarrow> nat \<times> fl list \<times> fl list \<times> fl list
     \<Rightarrow> nat \<times> fl list \<times> fl list \<times> fl list" where
  "dw_loop spline dspline extrema_concavity [] st = st"
| "dw_loop spline dspline extrema_concavity (min_max # rest) (i, dw, tau, min_value) =
     (let st' = (if 0 < call extrema_concavity min_max
                 then (Suc i,
                       dw[i := Fin (10 powr call spline min_max)],
                       tau[i := Fin (10 powr min_max)],
                       min_value[i := Fin (call dspline min_max)])
                 else (i, dw, tau, min_value))
      in if fst st' = n_min then st'
         else dw_loop spline dspline extrema_concavity rest st')"

text \<open>
  Lines 256--281 and 320: the candidates are collected, the entry of the smallest
  \<^verbatim>\<open>min_value\<close> is selected, and a warning is emitted when the selected \<^verbatim>\<open>dw\<close> is NaN. The
  result is the pair (\<^verbatim>\<open>dw\<close>, \<^verbatim>\<open>tau\<close>) and the warnings.
\<close>

definition dw_select :: "spline \<Rightarrow> error + (fl \<times> fl) \<times> warning list" where
  "dw_select spline =
     (let dspline = derivative spline;
          d2spline = derivative dspline;
          extrema = roots d2spline;
          extrema_concavity = derivative (derivative dspline);
          st = dw_loop spline dspline extrema_concavity extrema
                 (0, replicate n_min NaN, replicate n_min NaN, replicate n_min PInf);
          dw = fst (snd st);
          tau = fst (snd (snd st));
          min_value = snd (snd (snd st))
      in case np_where (\<lambda>v. feq v (np_amin min_value)) min_value of
           [] \<Rightarrow> Inl IndexError
         | ind_min # _ \<Rightarrow>
            Inr ((dw ! ind_min, tau ! ind_min),
                 if isnan (dw ! ind_min) then [NoCagedRegion] else []))"

text \<open>\<^verbatim>\<open>debye_waller\<close> with \<^verbatim>\<open>show_plot\<close>, \<^verbatim>\<open>save_plot\<close> and \<^verbatim>\<open>verbose\<close> off.\<close>

definition debye_waller ::
  "fit \<Rightarrow> smoother \<Rightarrow> fl list \<Rightarrow> fl list \<Rightarrow> real \<Rightarrow> real option
     \<Rightarrow> error + (fl \<times> fl) \<times> warning list" where
  "debye_waller ius gf time msd use_frac sigma_spline =
     (case dw_prep gf time msd use_frac sigma_spline of
        Inl e \<Rightarrow> Inl e
      | Inr (logtime, logmsd) \<Rightarrow>
         (case ius logtime logmsd 5 of
            Inl e \<Rightarrow> Inl e
          | Inr spline \<Rightarrow> dw_select spline))"

text \<open>
  The candidates of the selection, stated from the description: the roots of the second
  derivative at which the third derivative is positive, in the order of the roots, at
  most \<^verbatim>\<open>n_min\<close> of them.
\<close>

definition dw_candidates :: "spline \<Rightarrow> real list" where
  "dw_candidates spline =
     take n_min (filter (\<lambda>r. 0 < call (derivative (derivative (derivative spline))) r)
                   (roots (derivative (derivative spline))))"

text \<open>
  Two spline objects for the examples: one whose second derivative has the roots 0 and 1
  with a positive third derivative and the first-derivative values 0 and 1 there, and one
  without roots. Each comes with a fit that returns it; the smoother of the examples
  leaves the data as it is.
\<close>

definition example_spline :: spline where
  "example_spline =
     spline_of (\<lambda>n x. if n = 1 then x else if n = 3 then 1 else 0)
               (\<lambda>n. if n = 1 \<or> n = 2 then [0, 1] else []) 0"

definition example_fit :: fit where
  "example_fit x y k = Inr example_spline"

definition example_smoother :: smoother where
  "example_smoother y s = y"

definition flat_spline :: spline where
  "flat_spline = spline_of (\<lambda>n x. 0) (\<lambda>n. []) 0"

definition flat_fit :: fit where
  "flat_fit x y k = Inr flat_spline"

section \<open>Autocorrelation (data\_manipulation.py, autocorrelation, lines 201--215)\<close>








section \<open>MSD estimator (msd.py, msd, lines 481--511)\<close>









section \<open>Preprocessing: what the upper bound keeps\<close>

text \<open>
  C3. After the truncation to \<^verbatim>\<open>use_frac\<close>, a bound \<^verbatim>\<open>(None, t_max)\<close> is meant to keep the
  samples whose time lies below \<^verbatim>\<open>t_max\<close>. For the times 1, 2, 3 and the upper bound 2.5
  these are the samples at the times 1 and 2; the preprocessing keeps no sample at all,
  since it cuts both arrays at the first index whose time lies below the bound, which is
  index 0. The scan that follows then reads entry 0 of an empty window.
\<close>

lemma upper_bound_example_prep:
  "find_diffusivity_prep [Fin 1, Fin 2, Fin 3] [Fin 10, Fin 20, Fin 30] 1
      (None, Some (Fin (5 / 2))) = Inr ([], [])"
  by (simp add: find_diffusivity_prep_def truncate_frac_def py_int_def py_slice_def
      slice_index_def clip_lower_def clip_upper_def bound_given_def np_where_def)

lemma upper_bound_example_sizes: "py_range (effective_min_Npts 10 0) 0 1 = Inr [- 1]"
  by (simp add: effective_min_Npts_def py_range_def)

lemma upper_bound_example_starts: "py_range 0 (0 - (- 1)) 1 = Inr [0]"
  by (simp add: py_range_def)

lemma scan_window_empty: "scan_window [] [] d a b (- 1) 0 st = Inl IndexError"
  by (simp add: scan_window_def diffusivity_def py_slice_def slice_index_def)

theorem find_diffusivity_upper_bound_keeps_nothing:
  "find_diffusivity_prep [Fin 1, Fin 2, Fin 3] [Fin 10, Fin 20, Fin 30] 1
      (None, Some (Fin (5 / 2))) = Inr ([], [])
   \<and> filter (\<lambda>t. flt t (Fin (5 / 2))) [Fin 1, Fin 2, Fin 3] = [Fin 1, Fin 2]
   \<and> find_diffusivity [Fin 1, Fin 2, Fin 3] [Fin 10, Fin 20, Fin 30] (Fin (991 / 1000))
        10 1 3 1 (Fin (97 / 100)) (None, Some (Fin (5 / 2))) = Inl IndexError"
proof -
  have "find_diffusivity [Fin 1, Fin 2, Fin 3] [Fin 10, Fin 20, Fin 30] (Fin (991 / 1000))
        10 1 3 1 (Fin (97 / 100)) (None, Some (Fin (5 / 2))) = Inl IndexError"
    using upper_bound_example_sizes upper_bound_example_starts
    by (simp add: find_diffusivity_def upper_bound_example_prep scan_window_empty)
  then show ?thesis
    by (simp add: upper_bound_example_prep)
qed

section \<open>Region search: the two records\<close>

subsection \<open>Comparisons and the two folds\<close>

lemma flt_trans: "flt a b \<Longrightarrow> flt b c \<Longrightarrow> flt a c"
  by (cases a; cases b; cases c) auto

lemma flt_irrefl [simp]: "\<not> flt a a"
  by (cases a) auto

lemma flt_NaN [simp]: "\<not> flt NaN a" "\<not> flt a NaN"
  by (cases a; simp)+

lemma closer_trans: "closer a b \<Longrightarrow> closer b c \<Longrightarrow> closer a c"
  unfolding closer_def by (rule flt_trans)

lemma closer_irrefl [simp]: "\<not> closer a a"
  by (simp add: closer_def)

lemma closer_nan: "isnan a \<Longrightarrow> \<not> closer a b" "isnan a \<Longrightarrow> \<not> closer b a"
  by (cases a; simp add: closer_def fsub_def)+

lemma nan_record_4 [simp]: "nan_record ! 4 = NaN"
  by (simp add: nan_record_def numeral_nat)

lemma best_cond_closer: "best_cond b e = (closer e (b ! 4) \<or> isnan (b ! 4))"
  by (simp add: best_cond_def closer_def)

lemma best_fold_inv:
  "let b = foldl best_step nan_record cs in
     (cs = [] \<longrightarrow> b = nan_record) \<and>
     (cs \<noteq> [] \<longrightarrow> b \<in> set cs \<and> (\<forall>c\<in>set cs. \<not> closer (c ! 4) (b ! 4))
        \<and> (isnan (b ! 4) \<longrightarrow> (\<forall>c\<in>set cs. isnan (c ! 4))))"
proof (induction cs rule: rev_induct)
  case Nil
  show ?case by simp
next
  case (snoc c cs)
  define b where "b = foldl best_step nan_record cs"
  have ih: "cs = [] \<longrightarrow> b = nan_record"
    "cs \<noteq> [] \<longrightarrow> b \<in> set cs \<and> (\<forall>c\<in>set cs. \<not> closer (c ! 4) (b ! 4))
        \<and> (isnan (b ! 4) \<longrightarrow> (\<forall>c\<in>set cs. isnan (c ! 4)))"
    using snoc by (simp_all add: b_def Let_def)
  have new: "foldl best_step nan_record (cs @ [c]) = best_step b c"
    by (simp add: b_def)
  show ?case
  proof (cases "best_cond b (c ! 4)")
    case True
    then have upd: "best_step b c = c" by (simp add: best_step_def)
    have others: "\<not> closer (s ! 4) (c ! 4)" if "s \<in> set cs" for s
    proof (cases "isnan (b ! 4)")
      case True
      show ?thesis
      proof (cases "cs = []")
        case True
        with that show ?thesis by simp
      next
        case False
        with ih True that have "isnan (s ! 4)" by blast
        then show ?thesis by (rule closer_nan)
      qed
    next
      case False
      with \<open>best_cond b (c ! 4)\<close> have cb: "closer (c ! 4) (b ! 4)"
        by (simp add: best_cond_closer)
      from that have "cs \<noteq> []" by auto
      with ih that have "\<not> closer (s ! 4) (b ! 4)" by blast
      with cb show ?thesis using closer_trans by blast
    qed
    have nan: "isnan (s ! 4)" if "isnan (c ! 4)" "s \<in> set cs" for s
    proof -
      from that(1) have "\<not> closer (c ! 4) (b ! 4)" by (rule closer_nan)
      with True have bn: "isnan (b ! 4)" by (simp add: best_cond_closer)
      from that have "cs \<noteq> []" by auto
      with ih bn that show ?thesis by blast
    qed
    show ?thesis
      unfolding new upd Let_def using others nan by auto
  next
    case False
    then have keep: "best_step b c = b" by (simp add: best_step_def)
    from False have nb: "\<not> isnan (b ! 4)" and nc: "\<not> closer (c ! 4) (b ! 4)"
      by (simp_all add: best_cond_closer)
    from nb have "b \<noteq> nan_record" by auto
    with ih have ne: "cs \<noteq> []" by blast
    show ?thesis
      unfolding new keep Let_def using ih ne nb nc by auto
  qed
qed

lemma fle_Fin [simp]: "fle (Fin a) (Fin b) = (a \<le> b)"
  by (auto simp: fle_def)

lemma nan_record_last [simp]: "last nan_record = NaN"
  by (simp add: nan_record_def)

lemma longest_cond_nan_record [simp]: "longest_cond nan_record min_exp e n"
  by (simp add: longest_cond_def)

lemma longest_cond_char:
  "last l = Fin (real_of_int nl) \<Longrightarrow>
   longest_cond l min_exp e n =
     (((fge e min_exp \<and> nl \<le> n) \<or> isnan (l ! 4)) \<and> ((nl < n \<or> closer e (l ! 4)) \<or> isnan (l ! 4)))"
  by (simp add: longest_cond_def closer_def fgt_def)

lemma fge_nan: "isnan e \<Longrightarrow> \<not> fge e m"
  by (cases e; cases m) (auto simp: fge_def fle_def)

lemma longest_fold_inv:
  assumes "sorted (map fst cs)" and "\<forall>nc\<in>set cs. last (snd nc) = Fin (real_of_int (fst nc))"
  shows "let l = foldl (longest_step min_exp) nan_record cs in
     (cs = [] \<longrightarrow> l = nan_record) \<and>
     (cs \<noteq> [] \<longrightarrow> (\<exists>n. (n, l) \<in> set cs \<and>
          (\<forall>nc\<in>set cs. fge (snd nc ! 4) min_exp \<longrightarrow>
               fst nc \<le> n \<and> (fst nc = n \<longrightarrow> \<not> closer (snd nc ! 4) (l ! 4))))
        \<and> (isnan (l ! 4) \<longrightarrow> (\<forall>nc\<in>set cs. isnan (snd nc ! 4))))"
  using assms
proof (induction cs rule: rev_induct)
  case Nil
  show ?case by simp
next
  case (snoc x cs)
  obtain n c where x: "x = (n, c)" by (cases x)
  define l where "l = foldl (longest_step min_exp) nan_record cs"
  from snoc.prems have sorted_cs: "sorted (map fst cs)" and le_n: "\<forall>y\<in>set cs. fst y \<le> n"
    and lasts: "\<forall>nc\<in>set cs. last (snd nc) = Fin (real_of_int (fst nc))"
    and last_c: "last c = Fin (real_of_int n)"
    by (auto simp: sorted_append x)
  have ih: "cs = [] \<longrightarrow> l = nan_record"
    "cs \<noteq> [] \<longrightarrow> (\<exists>n. (n, l) \<in> set cs \<and>
          (\<forall>nc\<in>set cs. fge (snd nc ! 4) min_exp \<longrightarrow>
               fst nc \<le> n \<and> (fst nc = n \<longrightarrow> \<not> closer (snd nc ! 4) (l ! 4))))
        \<and> (isnan (l ! 4) \<longrightarrow> (\<forall>nc\<in>set cs. isnan (snd nc ! 4)))"
    using snoc.IH [OF sorted_cs lasts] by (simp_all add: l_def Let_def)
  have new: "foldl (longest_step min_exp) nan_record (cs @ [x]) = longest_step min_exp l (n, c)"
    by (simp add: l_def x)
  show ?case
  proof (cases "cs = []")
    case True
    with ih have "l = nan_record" by simp
    then have "longest_step min_exp l (n, c) = c" by (simp add: longest_step_def)
    then show ?thesis unfolding new Let_def using True by (simp add: x)
  next
    case False
    with ih obtain nl where nl: "(nl, l) \<in> set cs"
      and J: "\<forall>nc\<in>set cs. fge (snd nc ! 4) min_exp \<longrightarrow>
               fst nc \<le> nl \<and> (fst nc = nl \<longrightarrow> \<not> closer (snd nc ! 4) (l ! 4))"
      and K: "isnan (l ! 4) \<longrightarrow> (\<forall>nc\<in>set cs. isnan (snd nc ! 4))"
      by blast
    from nl lasts have last_l: "last l = Fin (real_of_int nl)" by force
    from nl le_n have nl_le: "nl \<le> n" by force
    note cond = longest_cond_char [OF last_l, of min_exp "c ! 4" n]
    show ?thesis
    proof (cases "longest_cond l min_exp (c ! 4) n")
      case True
      then have upd: "longest_step min_exp l (n, c) = c" by (simp add: longest_step_def)
      have J': "fst nc \<le> n \<and> (fst nc = n \<longrightarrow> \<not> closer (snd nc ! 4) (c ! 4))"
        if "nc \<in> set cs" "fge (snd nc ! 4) min_exp" for nc
      proof -
        from that le_n have le: "fst nc \<le> n" by blast
        have "\<not> closer (snd nc ! 4) (c ! 4)" if eq: "fst nc = n"
        proof -
          from J \<open>nc \<in> set cs\<close> \<open>fge (snd nc ! 4) min_exp\<close>
          have "fst nc \<le> nl" and nocl: "fst nc = nl \<longrightarrow> \<not> closer (snd nc ! 4) (l ! 4)"
            by blast+
          with eq nl_le have "nl = n" by simp
          have "\<not> isnan (snd nc ! 4)"
            using \<open>fge (snd nc ! 4) min_exp\<close> fge_nan by blast
          with K \<open>nc \<in> set cs\<close> have "\<not> isnan (l ! 4)" by blast
          with True cond \<open>nl = n\<close> have "closer (c ! 4) (l ! 4)" by simp
          moreover from nocl eq \<open>nl = n\<close> have "\<not> closer (snd nc ! 4) (l ! 4)" by simp
          ultimately show ?thesis using closer_trans by blast
        qed
        with le show ?thesis by simp
      qed
      have K': "isnan (snd nc ! 4)" if "isnan (c ! 4)" "nc \<in> set cs" for nc
      proof -
        from that(1) have "\<not> fge (c ! 4) min_exp" by (rule fge_nan)
        with True cond have "isnan (l ! 4)" by blast
        with K that show ?thesis by blast
      qed
      show ?thesis
        unfolding new upd Let_def using J' K' by (auto simp: x)
    next
      case no: False
      then have keep: "longest_step min_exp l (n, c) = l" by (simp add: longest_step_def)
      from no cond have nn: "\<not> isnan (l ! 4)" by blast
      have Jc: "n \<le> nl \<and> (n = nl \<longrightarrow> \<not> closer (c ! 4) (l ! 4))" if "fge (c ! 4) min_exp"
        using no cond that nl_le nn by auto
      have "(nl, l) \<in> set (cs @ [x]) \<and>
          (\<forall>nc\<in>set (cs @ [x]). fge (snd nc ! 4) min_exp \<longrightarrow>
               fst nc \<le> nl \<and> (fst nc = nl \<longrightarrow> \<not> closer (snd nc ! 4) (l ! 4)))"
        using nl J Jc by (auto simp: x)
      then show ?thesis
        unfolding new keep Let_def using nn by blast
    qed
  qed
qed

lemma cands_Nil [simp]: "cands time msd ndim min_R2 [] = []"
  by (simp add: cands_def map_filter_simps)

lemma cands_Cons:
  "cands time msd ndim min_R2 (w # ws) =
     (case window_cand time msd ndim min_R2 w of
        None \<Rightarrow> cands time msd ndim min_R2 ws
      | Some c \<Rightarrow> (fst w, c) # cands time msd ndim min_R2 ws)"
  by (simp add: cands_def map_filter_simps split: option.splits)

lemma cands_append:
  "cands time msd ndim min_R2 (ws @ vs) = cands time msd ndim min_R2 ws @ cands time msd ndim min_R2 vs"
  by (induction ws) (simp_all add: cands_Cons split: option.splits)

lemma set_cands:
  "set (cands time msd ndim min_R2 ws) =
     {(fst w, c) | w c. w \<in> set ws \<and> window_cand time msd ndim min_R2 w = Some c}"
  by (induction ws) (auto simp: cands_Cons split: option.splits)

lemma window_cand_last:
  "window_cand time msd ndim min_R2 w = Some c \<Longrightarrow> last c = Fin (real_of_int (fst w))"
  by (auto simp: window_cand_def Let_def split: sum.splits if_splits list.splits)

lemma scan_window_Inr:
  assumes "scan_window time msd ndim min_exp min_R2 npts i st = Inr st'"
  shows "st' = (case window_cand time msd ndim min_R2 (npts, i) of
                  None \<Rightarrow> st
                | Some c \<Rightarrow> region_step min_exp st (npts, c))"
  using assms
  by (auto simp: scan_window_def window_cand_def region_step_def best_step_def longest_step_def
      Let_def split: sum.splits if_splits list.splits prod.splits)

lemma scan_starts_Inr:
  "scan_starts time msd ndim min_exp min_R2 npts starts st = Inr st' \<Longrightarrow>
   st' = foldl (region_step min_exp) st (cands time msd ndim min_R2 (map (Pair npts) starts))"
proof (induction starts arbitrary: st)
  case Nil
  then show ?case by simp
next
  case (Cons i rest)
  from Cons.prems obtain st1 where
    w: "scan_window time msd ndim min_exp min_R2 npts i st = Inr st1" and
    r: "scan_starts time msd ndim min_exp min_R2 npts rest st1 = Inr st'"
    by (auto split: sum.splits)
  from Cons.IH [OF r] scan_window_Inr [OF w] show ?case
    by (simp add: cands_Cons split: option.splits)
qed

lemma scan_sizes_Inr:
  "scan_sizes time msd ndim min_exp min_R2 skip sizes st = Inr st' \<Longrightarrow>
   st' = foldl (region_step min_exp) st
           (cands time msd ndim min_R2 (concat (map (size_windows (length time) skip) sizes)))"
proof (induction sizes arbitrary: st)
  case Nil
  then show ?case by simp
next
  case (Cons npts rest)
  from Cons.prems obtain starts st1 where
    s: "py_range 0 (int (length time) - npts) skip = Inr starts" and
    w: "scan_starts time msd ndim min_exp min_R2 npts starts st = Inr st1" and
    r: "scan_sizes time msd ndim min_exp min_R2 skip rest st1 = Inr st'"
    by (auto split: sum.splits)
  from Cons.IH [OF r] scan_starts_Inr [OF w] s show ?case
    by (simp add: cands_append size_windows_def)
qed

lemma foldl_region_step:
  "foldl (region_step min_exp) (b, l) cs =
     (foldl best_step b (map snd cs), foldl (longest_step min_exp) l cs)"
  by (induction cs arbitrary: b l) (simp_all add: region_step_def)

lemma scanned_windows_sizes:
  "py_range (effective_min_Npts min_Npts n) (int n) skip = Inr sizes \<Longrightarrow>
   scanned_windows n min_Npts skip = concat (map (size_windows n skip) sizes)"
  by (simp add: scanned_windows_def)

lemma find_diffusivity_fold:
  assumes "find_diffusivity time msd min_exp min_Npts skip ndim use_frac min_R2 bounds
             = Inr ((best, longest), warns)"
      and "find_diffusivity_prep time msd use_frac bounds = Inr (time', msd')"
  shows "best = foldl best_step nan_record
           (map snd (cands time' msd' ndim min_R2 (scanned_windows (length time') min_Npts skip)))"
    and "longest = foldl (longest_step min_exp) nan_record
           (cands time' msd' ndim min_R2 (scanned_windows (length time') min_Npts skip))"
proof -
  from assms obtain sizes where
    s: "py_range (effective_min_Npts min_Npts (length time')) (int (length time')) skip = Inr sizes"
    and r: "scan_sizes time' msd' ndim min_exp min_R2 skip sizes (nan_record, nan_record)
              = Inr (best, longest)"
    by (auto simp: find_diffusivity_def Let_def split: sum.splits)
  from scan_sizes_Inr [OF r] scanned_windows_sizes [OF s]
  have "(best, longest) = foldl (region_step min_exp) (nan_record, nan_record)
          (cands time' msd' ndim min_R2 (scanned_windows (length time') min_Npts skip))"
    by simp
  then show "best = foldl best_step nan_record
           (map snd (cands time' msd' ndim min_R2 (scanned_windows (length time') min_Npts skip)))"
    and "longest = foldl (longest_step min_exp) nan_record
           (cands time' msd' ndim min_R2 (scanned_windows (length time') min_Npts skip))"
    by (simp_all add: foldl_region_step)
qed

lemma np_sum_Fin2 [simp]: "np_sum [Fin a, Fin b] = Fin (a + b)"
  by (simp add: np_sum_def)

lemma np_sum_Fin3 [simp]: "np_sum [Fin a, Fin b, Fin c] = Fin (a + b + c)"
  by (simp add: np_sum_def)

lemma linregress_two_points:
  assumes "x1 < x2" "y1 < y2"
  shows "linregress [Fin x1, Fin x2] [Fin y1, Fin y2] =
     Inr \<lparr>slope = Fin ((y2 - y1) / (x2 - x1)),
          intercept = Fin ((y1 + y2) / 2 - (y2 - y1) / (x2 - x1) * ((x1 + x2) / 2)),
          rvalue = Fin 1, stderr = Fin 0\<rparr>"
proof -
  define dx where "dx = x2 - x1"
  define dy where "dy = y2 - y1"
  have pos: "0 < dx" "0 < dy" using assms by (simp_all add: dx_def dy_def)
  have mx: "np_mean [Fin x1, Fin x2] = Fin ((x1 + x2) / 2)"
    and my: "np_mean [Fin y1, Fin y2] = Fin ((y1 + y2) / 2)"
    by (simp_all add: np_mean_def)
  have cx: "centered [Fin x1, Fin x2] = [Fin (- dx / 2), Fin (dx / 2)]"
    and cy: "centered [Fin y1, Fin y2] = [Fin (- dy / 2), Fin (dy / 2)]"
    by (simp_all add: centered_def mx my fsub_def dx_def dy_def field_simps)
  have sxx: "cov_entry [Fin x1, Fin x2] [Fin x1, Fin x2] = Fin (dx * dx / 4)"
    and sxy: "cov_entry [Fin x1, Fin x2] [Fin y1, Fin y2] = Fin (dx * dy / 4)"
    and syy: "cov_entry [Fin y1, Fin y2] [Fin y1, Fin y2] = Fin (dy * dy / 4)"
    by (simp_all add: cov_entry_def cx cy field_simps)
  have prod: "fmul (Fin (dx * dx / 4)) (Fin (dy * dy / 4)) = Fin ((dx * dy / 4)\<^sup>2)"
    by (simp add: power2_eq_square)
  have rt: "fsqrt (Fin ((dx * dy / 4)\<^sup>2)) = Fin (dx * dy / 4)"
    using pos by simp
  have r0: "fdiv (Fin (dx * dy / 4)) (Fin (dx * dy / 4)) = Fin 1"
    using pos by simp
  have ext: "feq (np_amax [Fin x1, Fin x2]) (np_amin [Fin x1, Fin x2]) = False"
    using assms by (simp add: np_amax_def np_amin_def fmax2_def fmin2_def)
  have nz: "dx * dx \<noteq> 0" "dy * dy \<noteq> 0" "dx * dy \<noteq> 0" using pos by simp_all
  show ?thesis
    unfolding linregress_def ext Let_def sxx sxy syy prod rt r0
    using pos nz
    by (simp add: mx my fgt_def fsub_def dx_def [symmetric] dy_def [symmetric])
qed

lemma linregress_example3:
  "linregress [Fin 0, Fin 1, Fin 4] [Fin 0, Fin 1, Fin 2] =
     Inr \<lparr>slope = Fin (6 / 13), intercept = Fin (3 / 13),
          rvalue = Fin (4 / (3 * sqrt (52 / 27))), stderr = Fin (sqrt (3 / 169))\<rparr>"
proof -
  have mx: "np_mean [Fin 0, Fin 1, Fin 4] = Fin (5 / 3)"
    and my: "np_mean [Fin 0, Fin 1, Fin 2] = Fin 1"
    by (simp_all add: np_mean_def)
  have cx: "centered [Fin 0, Fin 1, Fin 4] = [Fin (- 5 / 3), Fin (- 2 / 3), Fin (7 / 3)]"
    and cy: "centered [Fin 0, Fin 1, Fin 2] = [Fin (- 1), Fin 0, Fin 1]"
    by (simp_all add: centered_def mx my fsub_def)
  have sxx: "cov_entry [Fin 0, Fin 1, Fin 4] [Fin 0, Fin 1, Fin 4] = Fin (26 / 9)"
    and sxy: "cov_entry [Fin 0, Fin 1, Fin 4] [Fin 0, Fin 1, Fin 2] = Fin (4 / 3)"
    and syy: "cov_entry [Fin 0, Fin 1, Fin 2] [Fin 0, Fin 1, Fin 2] = Fin (2 / 3)"
    by (simp_all add: cov_entry_def cx cy)
  have ext: "feq (np_amax [Fin 0, Fin 1, Fin 4]) (np_amin [Fin 0, Fin 1, Fin 4]) = False"
    by (simp add: np_amax_def np_amin_def fmax2_def fmin2_def)
  have "(4 / 3)\<^sup>2 < (52 / 27 :: real)" by (simp add: power2_eq_square)
  then have "4 / 3 < sqrt (52 / 27)" by (rule real_less_rsqrt)
  then have big: "\<not> 3 * sqrt (52 / 27) < 4" by simp
  have "(0::real) \<le> sqrt (52 / 27)" by simp
  then have "(0::real) \<le> 4 / (3 * sqrt (52 / 27))" by simp
  then have small: "\<not> 4 / (3 * sqrt (52 / 27)) < - 1" by linarith
  show ?thesis
    unfolding linregress_def ext Let_def sxx sxy syy
    using big small by (simp add: mx my fgt_def fsub_def)
qed

lemma py_range_sorted:
  assumes "py_range a b s = Inr xs" "0 < s"
  shows "sorted xs" and "\<forall>x\<in>set xs. a \<le> x"
proof -
  from assms have xs: "xs = map (\<lambda>k. a + int k * s) [0..<nat ((b - a + s - 1) div s)]"
    by (simp add: py_range_def)
  show "sorted xs"
    unfolding xs using \<open>0 < s\<close> by (auto simp: sorted_iff_nth_mono mult_right_mono)
  show "\<forall>x\<in>set xs. a \<le> x"
    unfolding xs using \<open>0 < s\<close> by auto
qed

lemma py_range_neg_empty:
  assumes "py_range a b s = Inr xs" "s < 0" "a \<le> b"
  shows "xs = []"
proof -
  have "(a - b - s - 1) div (- s) \<le> 0"
  proof -
    have "a - b - s - 1 < - s" using assms by simp
    moreover have "0 < - s" using assms by simp
    ultimately show ?thesis
      by (smt (verit) div_pos_neg_trivial pos_imp_zdiv_neg_iff zdiv_eq_0_iff)
  qed
  with assms show ?thesis by (simp add: py_range_def)
qed

lemma fst_size_windows: "w \<in> set (size_windows n skip npts) \<Longrightarrow> fst w = npts"
  by (auto simp: size_windows_def split: sum.splits)

lemma sorted_size_windows:
  "sorted sizes \<Longrightarrow> sorted (map fst (concat (map (size_windows n skip) sizes)))"
proof (induction sizes)
  case Nil
  show ?case by simp
next
  case (Cons npts rest)
  have same: "\<forall>x\<in>set (size_windows n skip npts). fst x = npts"
    using fst_size_windows by blast
  then have "map fst (size_windows n skip npts) = replicate (length (size_windows n skip npts)) npts"
    by (simp add: map_replicate_const [symmetric] cong: map_cong)
  then have s1: "sorted (map fst (size_windows n skip npts))"
    by (simp add: sorted_replicate)
  from Cons have s2: "sorted (map fst (concat (map (size_windows n skip) rest)))"
    and ge: "\<forall>m\<in>set rest. npts \<le> m" by simp_all
  have le: "x \<le> y" if "x \<in> set (map fst (size_windows n skip npts))"
    "y \<in> set (map fst (concat (map (size_windows n skip) rest)))" for x y
  proof -
    from that(1) obtain p where p: "p \<in> set (size_windows n skip npts)" "x = fst p" by auto
    from that(2) obtain q m where q: "m \<in> set rest" "q \<in> set (size_windows n skip m)" "y = fst q"
      by auto
    from p have "x = npts" using fst_size_windows by blast
    moreover from q have "y = m" using fst_size_windows by blast
    ultimately show ?thesis using ge q(1) by simp
  qed
  have "sorted (map fst (size_windows n skip npts)
          @ map fst (concat (map (size_windows n skip) rest)))"
    unfolding sorted_append using s1 s2 le by blast
  then show ?case by simp
qed

lemma effective_min_Npts_le: "effective_min_Npts m n \<le> int n"
  by (simp add: effective_min_Npts_def)

lemma sorted_scanned_windows: "sorted (map fst (scanned_windows n min_Npts skip))"
proof (cases "py_range (effective_min_Npts min_Npts n) (int n) skip")
  case (Inl e)
  then show ?thesis by (simp add: scanned_windows_def)
next
  case (Inr sizes)
  consider "0 < skip" | "skip < 0" | "skip = 0" by linarith
  then have "sorted sizes"
  proof cases
    case 1
    with Inr show ?thesis by (rule py_range_sorted)
  next
    case 2
    have "sizes = []" by (rule py_range_neg_empty [OF Inr 2 effective_min_Npts_le])
    then show ?thesis by simp
  next
    case 3
    with Inr show ?thesis by (simp add: py_range_def)
  qed
  with Inr show ?thesis by (simp add: scanned_windows_def sorted_size_windows)
qed

lemma scanned_windows_ge:
  assumes "w \<in> set (scanned_windows n min_Npts skip)"
  shows "effective_min_Npts min_Npts n \<le> fst w"
proof -
  from assms obtain sizes where
    s: "py_range (effective_min_Npts min_Npts n) (int n) skip = Inr sizes"
    and w: "w \<in> set (concat (map (size_windows n skip) sizes))"
    by (cases "py_range (effective_min_Npts min_Npts n) (int n) skip")
       (simp_all add: scanned_windows_def)
  from w obtain m where m: "m \<in> set sizes" "w \<in> set (size_windows n skip m)" by auto
  then have fw: "fst w = m" using fst_size_windows by blast
  consider "0 < skip" | "skip < 0" | "skip = 0" by linarith
  then show ?thesis
  proof cases
    case 1
    with s m fw py_range_sorted(2) show ?thesis by blast
  next
    case 2
    have "sizes = []" by (rule py_range_neg_empty [OF s 2 effective_min_Npts_le])
    with m show ?thesis by simp
  next
    case 3
    with s show ?thesis by (simp add: py_range_def)
  qed
qed

lemma sorted_cands:
  "sorted (map fst ws) \<Longrightarrow> sorted (map fst (cands time msd ndim min_R2 ws))"
proof (induction ws)
  case Nil
  show ?case by simp
next
  case (Cons w ws)
  then have "sorted (map fst (cands time msd ndim min_R2 ws))"
    and "\<forall>v\<in>set ws. fst w \<le> fst v" by simp_all
  then show ?case
    by (auto simp: cands_Cons set_cands split: option.splits)
qed

lemma cands_last:
  "\<forall>nc\<in>set (cands time msd ndim min_R2 ws). last (snd nc) = Fin (real_of_int (fst nc))"
  by (auto simp: set_cands window_cand_last)

lemma cands_empty_iff:
  "cands time msd ndim min_R2 ws = [] \<longleftrightarrow> (\<forall>w\<in>set ws. window_cand time msd ndim min_R2 w = None)"
  by (induction ws) (auto simp: cands_Cons split: option.splits)

lemma window_cand_not_nan: "window_cand time msd ndim min_R2 w \<noteq> Some nan_record"
proof
  assume "window_cand time msd ndim min_R2 w = Some nan_record"
  then have "last nan_record = Fin (real_of_int (fst w))" by (rule window_cand_last)
  then show False by simp
qed

text \<open>
  C7, as the code has it. When \<^verbatim>\<open>find_diffusivity\<close> returns, \<^verbatim>\<open>best\<close> is the all-NaN record
  exactly when no scanned window passes the gate \<^verbatim>\<open>r2_tmp > min_R2\<close>. Otherwise it is the
  record of a scanned window that passes the gate; no window that passes the gate has an
  exponent closer to 1.0, whatever its length (and the exponent of \<^verbatim>\<open>best\<close> is NaN only if
  the exponent of every such window is). The window has at least \<^verbatim>\<open>min_Npts\<close> points when
  \<^verbatim>\<open>min_Npts\<close> does not exceed the number of points left after the preprocessing; when it
  does, lines 412--414 reset it to that number minus one, and this is the bound.
\<close>

theorem find_diffusivity_best:
  assumes run: "find_diffusivity time msd min_exp min_Npts skip ndim use_frac min_R2 bounds
                  = Inr ((best, longest), warns)"
      and prep: "find_diffusivity_prep time msd use_frac bounds = Inr (time', msd')"
  shows "(best = nan_record \<longleftrightarrow>
            (\<forall>w\<in>set (scanned_windows (length time') min_Npts skip).
                window_cand time' msd' ndim min_R2 w = None))
       \<and> (best \<noteq> nan_record \<longrightarrow>
            (\<exists>w\<in>set (scanned_windows (length time') min_Npts skip).
                window_cand time' msd' ndim min_R2 w = Some best
                \<and> effective_min_Npts min_Npts (length time') \<le> fst w)
          \<and> (\<forall>w\<in>set (scanned_windows (length time') min_Npts skip). \<forall>c.
                window_cand time' msd' ndim min_R2 w = Some c \<longrightarrow> \<not> closer (c ! 4) (best ! 4))
          \<and> (isnan (best ! 4) \<longrightarrow>
                (\<forall>w\<in>set (scanned_windows (length time') min_Npts skip). \<forall>c.
                   window_cand time' msd' ndim min_R2 w = Some c \<longrightarrow> isnan (c ! 4))))"
proof -
  let ?ws = "scanned_windows (length time') min_Npts skip"
  let ?cs = "map snd (cands time' msd' ndim min_R2 ?ws)"
  have b: "best = foldl best_step nan_record ?cs"
    by (rule find_diffusivity_fold(1) [OF run prep])
  have mem: "c \<in> set ?cs \<longleftrightarrow> (\<exists>w\<in>set ?ws. window_cand time' msd' ndim min_R2 w = Some c)" for c
    by (force simp: set_cands)
  have empty: "?cs = [] \<longleftrightarrow> (\<forall>w\<in>set ?ws. window_cand time' msd' ndim min_R2 w = None)"
    by (simp add: cands_empty_iff)
  from best_fold_inv [of ?cs] have
    inv1: "?cs = [] \<longrightarrow> best = nan_record" and
    inv2: "?cs \<noteq> [] \<longrightarrow> best \<in> set ?cs \<and> (\<forall>c\<in>set ?cs. \<not> closer (c ! 4) (best ! 4))
        \<and> (isnan (best ! 4) \<longrightarrow> (\<forall>c\<in>set ?cs. isnan (c ! 4)))"
    unfolding Let_def b [symmetric] by blast+
  have nn: "?cs \<noteq> [] \<longrightarrow> best \<noteq> nan_record"
  proof
    assume "?cs \<noteq> []"
    with inv2 have "best \<in> set ?cs" by blast
    then obtain w where "window_cand time' msd' ndim min_R2 w = Some best"
      unfolding mem by blast
    then show "best \<noteq> nan_record" using window_cand_not_nan by metis
  qed
  have part1: "best = nan_record \<longleftrightarrow> (\<forall>w\<in>set ?ws. window_cand time' msd' ndim min_R2 w = None)"
    using inv1 nn empty by blast
  have part2: "(\<exists>w\<in>set ?ws. window_cand time' msd' ndim min_R2 w = Some best
                \<and> effective_min_Npts min_Npts (length time') \<le> fst w)
          \<and> (\<forall>w\<in>set ?ws. \<forall>c.
                window_cand time' msd' ndim min_R2 w = Some c \<longrightarrow> \<not> closer (c ! 4) (best ! 4))
          \<and> (isnan (best ! 4) \<longrightarrow>
                (\<forall>w\<in>set ?ws. \<forall>c. window_cand time' msd' ndim min_R2 w = Some c \<longrightarrow> isnan (c ! 4)))"
    if "best \<noteq> nan_record"
  proof -
    from that inv1 have ne: "?cs \<noteq> []" by blast
    with inv2 have i1: "best \<in> set ?cs"
      and i2: "\<forall>c\<in>set ?cs. \<not> closer (c ! 4) (best ! 4)"
      and i3: "isnan (best ! 4) \<longrightarrow> (\<forall>c\<in>set ?cs. isnan (c ! 4))" by blast+
    from i1 obtain w where w: "w \<in> set ?ws" "window_cand time' msd' ndim min_R2 w = Some best"
      unfolding mem by blast
    from w(1) have "effective_min_Npts min_Npts (length time') \<le> fst w"
      by (rule scanned_windows_ge)
    with w have e: "\<exists>w\<in>set ?ws. window_cand time' msd' ndim min_R2 w = Some best
                \<and> effective_min_Npts min_Npts (length time') \<le> fst w" by blast
    from i2 have a: "\<forall>w\<in>set ?ws. \<forall>c.
                window_cand time' msd' ndim min_R2 w = Some c \<longrightarrow> \<not> closer (c ! 4) (best ! 4)"
      using mem by blast
    from i3 have n: "isnan (best ! 4) \<longrightarrow>
                (\<forall>w\<in>set ?ws. \<forall>c. window_cand time' msd' ndim min_R2 w = Some c \<longrightarrow> isnan (c ! 4))"
      using mem by blast
    from e a n show ?thesis by blast
  qed
  from part1 part2 show ?thesis by blast
qed

text \<open>
  What the scan of lines 418--430 leaves in \<^verbatim>\<open>longest\<close>. When \<^verbatim>\<open>find_diffusivity\<close> returns,
  \<^verbatim>\<open>longest\<close> is the all-NaN record exactly when no scanned window passes the gate
  \<^verbatim>\<open>r2_tmp > min_R2\<close>. Otherwise it is the record of a scanned window that passes the gate,
  and among the windows that pass the gate with an exponent of at least \<^verbatim>\<open>min_exp\<close> none has
  more points, and none with as many points has an exponent closer to 1.0. Nothing here
  says that the exponent of \<^verbatim>\<open>longest\<close> itself reaches \<^verbatim>\<open>min_exp\<close>.
\<close>

theorem find_diffusivity_longest:
  assumes run: "find_diffusivity time msd min_exp min_Npts skip ndim use_frac min_R2 bounds
                  = Inr ((best, longest), warns)"
      and prep: "find_diffusivity_prep time msd use_frac bounds = Inr (time', msd')"
  shows "(longest = nan_record \<longleftrightarrow>
            (\<forall>w\<in>set (scanned_windows (length time') min_Npts skip).
                window_cand time' msd' ndim min_R2 w = None))
       \<and> (longest \<noteq> nan_record \<longrightarrow>
            (\<exists>w\<in>set (scanned_windows (length time') min_Npts skip).
                window_cand time' msd' ndim min_R2 w = Some longest
                \<and> (\<forall>w'\<in>set (scanned_windows (length time') min_Npts skip). \<forall>c.
                      window_cand time' msd' ndim min_R2 w' = Some c \<longrightarrow> fge (c ! 4) min_exp \<longrightarrow>
                      fst w' \<le> fst w
                      \<and> (fst w' = fst w \<longrightarrow> \<not> closer (c ! 4) (longest ! 4)))))"
proof -
  let ?ws = "scanned_windows (length time') min_Npts skip"
  let ?cs = "cands time' msd' ndim min_R2 ?ws"
  have l: "longest = foldl (longest_step min_exp) nan_record ?cs"
    by (rule find_diffusivity_fold(2) [OF run prep])
  have mem: "(n, c) \<in> set ?cs \<longleftrightarrow>
      (\<exists>w\<in>set ?ws. fst w = n \<and> window_cand time' msd' ndim min_R2 w = Some c)" for n c
    by (force simp: set_cands)
  have empty: "?cs = [] \<longleftrightarrow> (\<forall>w\<in>set ?ws. window_cand time' msd' ndim min_R2 w = None)"
    by (simp add: cands_empty_iff)
  have srt: "sorted (map fst ?cs)"
    by (rule sorted_cands [OF sorted_scanned_windows])
  from longest_fold_inv [OF srt cands_last, of min_exp] have
    inv1: "?cs = [] \<longrightarrow> longest = nan_record" and
    inv2: "?cs \<noteq> [] \<longrightarrow> (\<exists>n. (n, longest) \<in> set ?cs \<and>
          (\<forall>nc\<in>set ?cs. fge (snd nc ! 4) min_exp \<longrightarrow>
               fst nc \<le> n \<and> (fst nc = n \<longrightarrow> \<not> closer (snd nc ! 4) (longest ! 4))))"
    unfolding Let_def l [symmetric] by blast+
  have nn: "?cs \<noteq> [] \<longrightarrow> longest \<noteq> nan_record"
  proof
    assume "?cs \<noteq> []"
    with inv2 obtain n where "(n, longest) \<in> set ?cs" by blast
    then obtain w where "window_cand time' msd' ndim min_R2 w = Some longest"
      unfolding mem by blast
    then show "longest \<noteq> nan_record" using window_cand_not_nan by metis
  qed
  have part1: "longest = nan_record \<longleftrightarrow>
      (\<forall>w\<in>set ?ws. window_cand time' msd' ndim min_R2 w = None)"
    using inv1 nn empty by blast
  have part2: "\<exists>w\<in>set ?ws. window_cand time' msd' ndim min_R2 w = Some longest
                \<and> (\<forall>w'\<in>set ?ws. \<forall>c.
                      window_cand time' msd' ndim min_R2 w' = Some c \<longrightarrow> fge (c ! 4) min_exp \<longrightarrow>
                      fst w' \<le> fst w
                      \<and> (fst w' = fst w \<longrightarrow> \<not> closer (c ! 4) (longest ! 4)))"
    if "longest \<noteq> nan_record"
  proof -
    from that inv1 have ne: "?cs \<noteq> []" by blast
    with inv2 obtain n where n: "(n, longest) \<in> set ?cs"
      and J: "\<forall>nc\<in>set ?cs. fge (snd nc ! 4) min_exp \<longrightarrow>
               fst nc \<le> n \<and> (fst nc = n \<longrightarrow> \<not> closer (snd nc ! 4) (longest ! 4))"
      by blast
    from n obtain w where w: "w \<in> set ?ws" "fst w = n"
      "window_cand time' msd' ndim min_R2 w = Some longest"
      unfolding mem by blast
    have "fst w' \<le> fst w \<and> (fst w' = fst w \<longrightarrow> \<not> closer (c ! 4) (longest ! 4))"
      if "w' \<in> set ?ws" "window_cand time' msd' ndim min_R2 w' = Some c" "fge (c ! 4) min_exp"
      for w' c
    proof -
      from that have "(fst w', c) \<in> set ?cs" unfolding mem by blast
      with J that(3) w(2) show ?thesis by force
    qed
    with w show ?thesis by blast
  qed
  from part1 part2 show ?thesis by blast
qed

lemma ln4: "ln (4::real) = 2 * ln 2"
  using ln_realpow [of 2 2] by simp

lemma example_length: "length [Fin 0, Fin 1, Fin 4, Fin 9] = 4"
  by simp

lemma linregress_example_log:
  "linregress [Fin 0, Fin (ln 4)] [Fin 0, Fin (ln 2)] =
     Inr \<lparr>slope = Fin (1 / 2), intercept = Fin 0, rvalue = Fin 1, stderr = Fin 0\<rparr>"
proof -
  have "(0::real) < ln 4" "(0::real) < ln 2" by simp_all
  from linregress_two_points [OF this] show ?thesis
    by (simp add: ln4)
qed

lemma diffusivity_example:
  "diffusivity [Fin 0, Fin 1, Fin 4] [Fin 0, Fin 1, Fin 2] 3 =
     Inr (Fin (1 / 13), Fin (sqrt (3 / 169) / 6), Fin (1 / 2), Fin (3 / 13), Fin 1)"
  by (simp add: diffusivity_def fsub_def linregress_example_log linregress_example3)

lemma example_slices:
  "py_slice [Fin 0, Fin 1, Fin 4, Fin 9] 0 (0 + 3) = [Fin 0, Fin 1, Fin 4]"
  "py_slice [Fin 0, Fin 1, Fin 2, Fin 3] 0 (0 + 3) = [Fin 0, Fin 1, Fin 2]"
  by (simp_all add: py_slice_def slice_index_def)

lemma scan_window_example:
  "scan_window [Fin 0, Fin 1, Fin 4, Fin 9] [Fin 0, Fin 1, Fin 2, Fin 3] 3
      (Fin (991 / 1000)) (Fin (97 / 100)) 3 0 (nan_record, nan_record)
     = Inr (example_record, example_record)"
  unfolding scan_window_def example_slices Let_def diffusivity_example
  by (simp add: fgt_def best_cond_def example_record_def)

lemma example_prep:
  "find_diffusivity_prep [Fin 0, Fin 1, Fin 4, Fin 9] [Fin 0, Fin 1, Fin 2, Fin 3] 1 (None, None)
     = Inr ([Fin 0, Fin 1, Fin 4, Fin 9], [Fin 0, Fin 1, Fin 2, Fin 3])"
  by (simp add: find_diffusivity_prep_def truncate_frac_def py_int_def py_slice_def
      slice_index_def clip_lower_def clip_upper_def bound_given_def)

lemma example_ranges:
  "py_range 3 4 1 = Inr [3]" "py_range 0 (4 - 3) 1 = Inr [0]"
  by (simp_all add: py_range_def)

lemma find_diffusivity_example_3:
  "find_diffusivity [Fin 0, Fin 1, Fin 4, Fin 9] [Fin 0, Fin 1, Fin 2, Fin 3]
      (Fin (991 / 1000)) 3 1 3 1 (Fin (97 / 100)) (None, None)
     = Inr ((example_record, example_record), [])"
  using example_ranges
  by (simp add: find_diffusivity_def example_prep effective_min_Npts_def scan_window_example)

lemma find_diffusivity_example_10:
  "find_diffusivity [Fin 0, Fin 1, Fin 4, Fin 9] [Fin 0, Fin 1, Fin 2, Fin 3]
      (Fin (991 / 1000)) 10 1 3 1 (Fin (97 / 100)) (None, None)
     = Inr ((example_record, example_record), [ResetMinNpts 10 4])"
  using example_ranges
  by (simp add: find_diffusivity_def example_prep effective_min_Npts_def scan_window_example)

lemma example_record_not_nan: "example_record \<noteq> nan_record"
  by (simp add: example_record_def nan_record_def numeral_eq_Suc)

text \<open>
  With the default \<^verbatim>\<open>min_Npts = 10\<close> and four samples the only window scanned has three
  points, and it becomes \<^verbatim>\<open>best\<close>.
\<close>

theorem best_window_below_min_Npts:
  "find_diffusivity [Fin 0, Fin 1, Fin 4, Fin 9] [Fin 0, Fin 1, Fin 2, Fin 3]
      (Fin (991 / 1000)) 10 1 3 1 (Fin (97 / 100)) (None, None)
     = Inr ((example_record, example_record), [ResetMinNpts 10 4])
   \<and> example_record \<noteq> nan_record
   \<and> last example_record = Fin 3
   \<and> \<not> fge (last example_record) (Fin 10)"
  using find_diffusivity_example_10 example_record_not_nan
  by (simp add: example_record_def fge_def)

text \<open>
  C2. The record \<^verbatim>\<open>longest\<close>, when it is not all-NaN, is to belong to a window whose exponent
  is at least \<^verbatim>\<open>min_exp\<close> (the docstring: the longest region that fits a linear model with
  an exponent of at least \<^verbatim>\<open>min_exp\<close>). The code does not keep to this: lines 428--429
  overwrite \<^verbatim>\<open>longest\<close> whenever \<^verbatim>\<open>longest[4]\<close> is NaN, so the first window that passes the
  gate is stored whatever its exponent. For the times 0, 1, 4, 9 and the values 0, 1, 2, 3
  with \<^verbatim>\<open>min_Npts = 3\<close> and the other arguments at their defaults, the only window scanned
  has the exponent 1/2, below \<^verbatim>\<open>min_exp = 0.991\<close>, and it is returned as \<^verbatim>\<open>longest\<close>.
\<close>

theorem longest_exponent_below_min_exp:
  "find_diffusivity [Fin 0, Fin 1, Fin 4, Fin 9] [Fin 0, Fin 1, Fin 2, Fin 3]
      (Fin (991 / 1000)) 3 1 3 1 (Fin (97 / 100)) (None, None)
     = Inr ((example_record, example_record), [])
   \<and> example_record \<noteq> nan_record
   \<and> example_record ! 4 = Fin (1 / 2)
   \<and> \<not> fge (example_record ! 4) (Fin (991 / 1000))"
  using find_diffusivity_example_3 example_record_not_nan
  by (simp add: example_record_def fge_def)

theorem find_diffusivity_best_witness:
  "find_diffusivity [Fin 0, Fin 1, Fin 4, Fin 9] [Fin 0, Fin 1, Fin 2, Fin 3]
      (Fin (991 / 1000)) 10 1 3 1 (Fin (97 / 100)) (None, None)
     = Inr ((example_record, example_record), [ResetMinNpts 10 4])
   \<and> find_diffusivity_prep [Fin 0, Fin 1, Fin 4, Fin 9] [Fin 0, Fin 1, Fin 2, Fin 3] 1 (None, None)
     = Inr ([Fin 0, Fin 1, Fin 4, Fin 9], [Fin 0, Fin 1, Fin 2, Fin 3])
   \<and> example_record \<noteq> nan_record
   \<and> (\<exists>w\<in>set (scanned_windows 4 10 1).
        window_cand [Fin 0, Fin 1, Fin 4, Fin 9] [Fin 0, Fin 1, Fin 2, Fin 3] 3 (Fin (97 / 100)) w
          = Some example_record
        \<and> effective_min_Npts 10 4 \<le> fst w)"
  using find_diffusivity_best [OF find_diffusivity_example_10 example_prep,
      unfolded example_length]
    find_diffusivity_example_10 example_prep example_record_not_nan
  by blast

theorem find_diffusivity_longest_witness:
  "find_diffusivity [Fin 0, Fin 1, Fin 4, Fin 9] [Fin 0, Fin 1, Fin 2, Fin 3]
      (Fin (991 / 1000)) 3 1 3 1 (Fin (97 / 100)) (None, None)
     = Inr ((example_record, example_record), [])
   \<and> find_diffusivity_prep [Fin 0, Fin 1, Fin 4, Fin 9] [Fin 0, Fin 1, Fin 2, Fin 3] 1 (None, None)
     = Inr ([Fin 0, Fin 1, Fin 4, Fin 9], [Fin 0, Fin 1, Fin 2, Fin 3])
   \<and> example_record \<noteq> nan_record
   \<and> (\<exists>w\<in>set (scanned_windows 4 3 1).
        window_cand [Fin 0, Fin 1, Fin 4, Fin 9] [Fin 0, Fin 1, Fin 2, Fin 3] 3 (Fin (97 / 100)) w
          = Some example_record)"
  using find_diffusivity_longest [OF find_diffusivity_example_3 example_prep,
      unfolded example_length]
    find_diffusivity_example_3 example_prep example_record_not_nan
  by blast

section \<open>The single-window primitive on a window that does not rise above its first sample\<close>

subsection \<open>NaN in the sums of the regression\<close>

lemma np_sum_Cons: "np_sum (x # xs) = fadd x (np_sum xs)"
  by (simp add: np_sum_def)

lemma fadd_NaN [simp]: "fadd NaN x = NaN" "fadd x NaN = NaN"
  by (cases x; simp)+

lemma fmul_NaN [simp]: "fmul NaN x = NaN" "fmul x NaN = NaN"
  by (cases x; simp)+

lemma fdiv_NaN [simp]: "fdiv NaN x = NaN" "fdiv x NaN = NaN"
  by (cases x; simp)+

lemma np_sum_NaN: "NaN \<in> set ys \<Longrightarrow> np_sum ys = NaN"
  by (induction ys) (auto simp: np_sum_Cons)

lemma fadd_not_PInf: "a \<noteq> PInf \<Longrightarrow> b \<noteq> PInf \<Longrightarrow> fadd a b \<noteq> PInf"
  by (cases a; cases b) auto

lemma np_sum_not_PInf: "PInf \<notin> set ys \<Longrightarrow> np_sum ys \<noteq> PInf"
proof (induction ys)
  case Nil
  show ?case by (simp add: np_sum_def)
next
  case (Cons y ys)
  then have "y \<noteq> PInf" "np_sum ys \<noteq> PInf" by auto
  then show ?case unfolding np_sum_Cons by (rule fadd_not_PInf)
qed

lemma fadd_NInf_cases: "b \<noteq> PInf \<Longrightarrow> fadd NInf b = NInf \<or> fadd NInf b = NaN"
  by (cases b) auto

lemma fadd_bad_right:
  "a \<noteq> PInf \<Longrightarrow> b = NInf \<or> b = NaN \<Longrightarrow> fadd a b = NInf \<or> fadd a b = NaN"
  by (cases a; cases b) auto

lemma np_sum_NInf:
  "NInf \<in> set ys \<Longrightarrow> PInf \<notin> set ys \<Longrightarrow> np_sum ys = NInf \<or> np_sum ys = NaN"
proof (induction ys)
  case Nil
  then show ?case by simp
next
  case (Cons y ys)
  show ?case
  proof (cases "NInf \<in> set ys")
    case True
    with Cons have "np_sum ys = NInf \<or> np_sum ys = NaN" by simp
    moreover from Cons.prems have "y \<noteq> PInf" by auto
    ultimately show ?thesis unfolding np_sum_Cons by (rule fadd_bad_right [rotated])
  next
    case False
    with Cons.prems have y: "y = NInf" by simp
    from Cons.prems have "np_sum ys \<noteq> PInf" by (intro np_sum_not_PInf) simp
    then show ?thesis unfolding np_sum_Cons y by (rule fadd_NInf_cases)
  qed
qed

text \<open>An entry that is \<open>-inf\<close> or NaN is NaN once the mean is subtracted.\<close>

lemma centered_bad:
  assumes "PInf \<notin> set ys" "k < length ys" "ys ! k = NInf \<or> ys ! k = NaN"
  shows "centered ys ! k = NaN"
proof -
  from assms(2) have mem: "ys ! k \<in> set ys" by simp
  have pos: "0 < real (length ys)" using assms(2) by (cases ys) auto
  have "np_sum ys = NInf \<or> np_sum ys = NaN"
  proof (cases "ys ! k = NaN")
    case True
    with mem have "NaN \<in> set ys" by simp
    then show ?thesis by (simp add: np_sum_NaN)
  next
    case False
    with assms(3) mem have "NInf \<in> set ys" by simp
    then show ?thesis using assms(1) by (rule np_sum_NInf)
  qed
  then have "np_mean ys = NInf \<or> np_mean ys = NaN"
    using pos by (auto simp: np_mean_def)
  then have "fsub (ys ! k) (np_mean ys) = NaN"
    using assms(3) by (auto simp: fsub_def)
  then show ?thesis using assms(2) by (simp add: centered_def)
qed

lemma length_centered [simp]: "length (centered ys) = length ys"
  by (simp add: centered_def)

lemma cov_entry_NaN_right:
  assumes "length xs = length ys" "k < length ys" "centered ys ! k = NaN"
  shows "cov_entry xs ys = NaN"
proof -
  have "map2 fmul (centered xs) (centered ys) ! k = NaN"
    using assms by simp
  moreover have "k < length (map2 fmul (centered xs) (centered ys))" using assms by simp
  ultimately have "NaN \<in> set (map2 fmul (centered xs) (centered ys))"
    by (metis nth_mem)
  then show ?thesis by (simp add: cov_entry_def np_sum_NaN)
qed

text \<open>Arrays of finite numbers.\<close>

lemma np_sum_Fin: "np_sum (map Fin zs) = Fin (sum_list zs)"
  by (induction zs) (simp_all add: np_sum_Cons, simp add: np_sum_def)

lemma np_mean_Fin: "zs \<noteq> [] \<Longrightarrow> np_mean (map Fin zs) = Fin (sum_list zs / real (length zs))"
  by (simp add: np_mean_def np_sum_Fin)

lemma centered_Fin:
  "zs \<noteq> [] \<Longrightarrow>
   centered (map Fin zs) = map Fin (map (\<lambda>z. z - sum_list zs / real (length zs)) zs)"
  by (simp add: centered_def np_mean_Fin fsub_def)

lemma map2_fmul_Fin: "map2 fmul (map Fin as) (map Fin bs) = map Fin (map2 (*) as bs)"
  by (induction as arbitrary: bs) (auto simp: zip_Cons1 split: list.splits)

lemma map2_mult_self: "map2 (*) (map f zs) (map f zs) = map (\<lambda>z. (f z :: real)\<^sup>2) zs"
  by (induction zs) (simp_all add: power2_eq_square)

lemma cov_entry_Fin:
  assumes "zs \<noteq> []"
  shows "cov_entry (map Fin zs) (map Fin zs) =
     Fin (sum_list (map (\<lambda>z. (z - sum_list zs / real (length zs))\<^sup>2) zs) / real (length zs))"
proof -
  let ?mu = "sum_list zs / real (length zs)"
  show ?thesis
    unfolding cov_entry_def centered_Fin [OF assms] map2_fmul_Fin map2_mult_self np_sum_Fin
    using assms by simp
qed

lemma sum_squares_pos:
  assumes "a \<in> set zs" "b \<in> set zs" "a \<noteq> (b::real)"
  shows "0 < sum_list (map (\<lambda>z. (z - mu)\<^sup>2) zs)"
proof -
  from assms obtain c where c: "c \<in> set zs" "c \<noteq> mu" by metis
  have nonneg: "\<forall>z\<in>set zs. 0 \<le> (z - mu)\<^sup>2" by simp
  have "(c - mu)\<^sup>2 \<le> sum_list (map (\<lambda>z. (z - mu)\<^sup>2) zs)"
    using c(1) by (intro member_le_sum_list) auto
  moreover have "0 < (c - mu)\<^sup>2" using c(2) by simp
  ultimately show ?thesis by linarith
qed

lemma foldl_fmax2_Fin: "foldl fmax2 (Fin a) (map Fin zs) = Fin (foldl max a zs)"
  by (induction zs arbitrary: a) (simp_all add: fmax2_def max_def)

lemma foldl_fmin2_Fin: "foldl fmin2 (Fin a) (map Fin zs) = Fin (foldl min a zs)"
  by (induction zs arbitrary: a) (simp_all add: fmin2_def min_def)

lemma foldl_max_ge: "(a::real) \<le> foldl max a zs \<and> (\<forall>z\<in>set zs. z \<le> foldl max a zs)"
proof (induction zs arbitrary: a)
  case Nil
  show ?case by simp
next
  case (Cons z zs)
  from Cons [of "max a z"] show ?case by (auto simp: max_def split: if_splits)
qed

lemma foldl_min_le: "foldl min a zs \<le> (a::real) \<and> (\<forall>z\<in>set zs. foldl min a zs \<le> z)"
proof (induction zs arbitrary: a)
  case Nil
  show ?case by simp
next
  case (Cons z zs)
  from Cons [of "min a z"] show ?case by (auto simp: min_def split: if_splits)
qed

text \<open>Two different finite entries pass the check against identical x values.\<close>

lemma amax_amin_differ:
  assumes "a \<in> set zs" "b \<in> set zs" "a < (b::real)"
  shows "\<not> feq (np_amax (map Fin zs)) (np_amin (map Fin zs))"
proof -
  from assms obtain z0 rest where zs: "zs = z0 # rest" by (cases zs) auto
  have "a \<le> foldl max z0 rest" "b \<le> foldl max z0 rest"
    "foldl min z0 rest \<le> a" "foldl min z0 rest \<le> b"
    using assms(1,2) foldl_max_ge [of z0 rest] foldl_min_le [of z0 rest] by (auto simp: zs)
  with assms(3) have "foldl min z0 rest \<noteq> foldl max z0 rest" by linarith
  then show ?thesis
    by (simp add: zs np_amax_def np_amin_def foldl_fmax2_Fin foldl_fmin2_Fin)
qed

lemma strictly_sorted_two:
  assumes "sorted_wrt (<) (xs :: real list)" "2 \<le> length xs"
  shows "xs ! 0 \<in> set xs" "xs ! 1 \<in> set xs" "xs ! 0 < xs ! 1"
proof -
  from assms(2) have l: "0 < length xs" "1 < length xs" by auto
  then show "xs ! 0 \<in> set xs" "xs ! 1 \<in> set xs" by (metis nth_mem)+
  from assms(1) l show "xs ! 0 < xs ! 1"
    by (simp add: sorted_wrt_iff_nth_less)
qed

lemma linregress_bad_y:
  assumes srt: "sorted_wrt (<) xs" and len: "length ys = length xs"
      and noP: "PInf \<notin> set ys" and k: "k < length ys" and bad: "ys ! k = NInf \<or> ys ! k = NaN"
  shows "\<exists>res. linregress (map Fin xs) ys = Inr res \<and> slope res = NaN
           \<and> rvalue res = (if length xs = 1 then Fin 0 else NaN)"
proof -
  from k len have ne: "xs \<noteq> []" "ys \<noteq> []" by auto
  have cb: "centered ys ! k = NaN" by (rule centered_bad [OF noP k bad])
  have sxy: "cov_entry (map Fin xs) ys = NaN"
    by (rule cov_entry_NaN_right [OF _ k cb]) (simp add: len)
  have syy: "cov_entry ys ys = NaN"
    by (rule cov_entry_NaN_right [OF _ k cb]) simp
  let ?v = "sum_list (map (\<lambda>z. (z - sum_list xs / real (length xs))\<^sup>2) xs) / real (length xs)"
  have sxx: "cov_entry (map Fin xs) (map Fin xs) = Fin ?v"
    by (rule cov_entry_Fin [OF ne(1)])
  show ?thesis
  proof (cases "length xs = 1")
    case True
    then obtain x where x: "xs = [x]" by (cases xs) auto
    have v0: "?v = 0" by (simp add: x)
    show ?thesis
      unfolding linregress_def Let_def sxy syy sxx v0
      using ne len True by simp
  next
    case False
    moreover from ne have "length xs \<noteq> 0" by simp
    ultimately have two: "2 \<le> length xs" by linarith
    note t = strictly_sorted_two [OF srt two]
    have ident: "\<not> feq (np_amax (map Fin xs)) (np_amin (map Fin xs))"
      by (rule amax_amin_differ [OF t])
    from t have "xs ! 0 \<noteq> xs ! 1" by simp
    from sum_squares_pos [OF t(1) t(2) this] have "0 < ?v"
      using ne by simp
    then have vne: "?v \<noteq> 0" by (metis less_irrefl)
    show ?thesis
      unfolding linregress_def Let_def sxy syy sxx
      using ne len False ident vne by (simp add: fgt_def)
  qed
qed

lemma linregress_Fin_returns:
  assumes "sorted_wrt (<) ts" "2 \<le> length ts" "length ms = length ts"
  shows "\<exists>res. linregress (map Fin ts) (map Fin ms) = Inr res"
proof -
  note t = strictly_sorted_two [OF assms(1,2)]
  have ident: "\<not> feq (np_amax (map Fin ts)) (np_amin (map Fin ts))"
    by (rule amax_amin_differ [OF t])
  from assms have "ts \<noteq> []" "ms \<noteq> []" by auto
  then show ?thesis
    unfolding linregress_def Let_def using ident assms(3) by simp
qed

text \<open>
  C10, as the code has it. The exponent and \<^verbatim>\<open>r_squared\<close> come from the regression of
  \<^verbatim>\<open>log(msd[1:] - msd[0])\<close> against \<^verbatim>\<open>log(time[1:] - time[0])\<close>. For a window of finite
  samples with strictly increasing times in which some later value does not exceed the
  first one (whether or not the values are positive), the logarithm of a non-positive
  number enters the regression: \<^verbatim>\<open>diffusivity\<close> returns, its exponent is NaN, and its
  \<^verbatim>\<open>r_squared\<close> is NaN when the window has at least three samples. For a window of two
  samples the regression has one point, the library sets the correlation coefficient to 0.0
  and \<^verbatim>\<open>r_squared\<close> is 0.0.
\<close>

theorem diffusivity_log_of_nonpositive:
  assumes srt: "sorted_wrt (<) ts" and len: "length ms = length ts" and two: "2 \<le> length ts"
      and j: "0 < j" "j < length ms" and le: "ms ! j \<le> ms ! 0"
  shows "\<exists>d se ic r2. diffusivity (map Fin ts) (map Fin ms) ndim = Inr (d, se, NaN, ic, r2)
           \<and> r2 = (if length ts = 2 then Fin 0 else NaN)"
proof -
  from two obtain t0 trest where ts: "ts = t0 # trest" by (cases ts) auto
  from two len obtain m0 mrest where ms: "ms = m0 # mrest" by (cases ms) auto
  from srt have gt: "\<forall>t\<in>set trest. t0 < t" and srt': "sorted_wrt (<) trest"
    by (simp_all add: ts)
  define xs where "xs = map (\<lambda>t. ln (t - t0)) trest"
  define ys where "ys = map (\<lambda>m. flog (fsub (Fin m) (Fin m0))) mrest"
  have tlog: "map (\<lambda>t. flog (fsub t (Fin t0))) (map Fin trest) = map Fin xs"
    using gt by (simp add: xs_def fsub_def)
  have mlog: "map (\<lambda>m. flog (fsub m (Fin m0))) (map Fin mrest) = ys"
    by (simp add: ys_def comp_def)
  have "sorted_wrt (\<lambda>a b. ln (a - t0) < ln (b - t0)) trest"
    using srt' gt by (rule_tac sorted_wrt_mono_rel [of trest "(<)"]) auto
  then have sx: "sorted_wrt (<) xs" by (simp add: xs_def sorted_wrt_map)
  have ly: "length ys = length xs" using len by (simp add: xs_def ys_def ts ms)
  have noP: "PInf \<notin> set ys" by (auto simp: ys_def fsub_def)
  from j have k: "j - 1 < length ys" by (simp add: ys_def ms)
  from j le have "mrest ! (j - 1) \<le> m0" by (simp add: ms nth_Cons')
  then have bad: "ys ! (j - 1) = NInf \<or> ys ! (j - 1) = NaN"
    using k by (simp add: ys_def fsub_def)
  from linregress_bad_y [OF sx ly noP k bad] obtain res1 where
    r1: "linregress (map Fin xs) ys = Inr res1" "slope res1 = NaN"
        "rvalue res1 = (if length xs = 1 then Fin 0 else NaN)" by blast
  from linregress_Fin_returns [OF srt two len] obtain res2 where
    r2: "linregress (map Fin ts) (map Fin ms) = Inr res2" by blast
  have "length ts = Suc (length xs)" by (simp add: xs_def ts)
  then have lx: "length xs = 1 \<longleftrightarrow> length ts = 2" by presburger
  have "diffusivity (map Fin ts) (map Fin ms) ndim =
      Inr (fdiv (fdiv (slope res2) (Fin 2)) (Fin (real_of_int ndim)),
           fdiv (fdiv (stderr res2) (Fin 2)) (Fin (real_of_int ndim)),
           NaN, intercept res2, fmul (rvalue res1) (rvalue res1))"
    using r2 r1(1,2) len
    by (simp add: diffusivity_def ts ms tlog mlog [unfolded ms] del: map_map)
  moreover have "fmul (rvalue res1) (rvalue res1) = (if length ts = 2 then Fin 0 else NaN)"
    using lx by (auto simp: r1(3))
  ultimately show ?thesis by simp
qed

theorem diffusivity_log_of_nonpositive_witness:
  "\<exists>d se ic r2. diffusivity (map Fin [0, 1, 2]) (map Fin [2, 1, 3]) 3 = Inr (d, se, NaN, ic, r2)
      \<and> r2 = NaN"
  using diffusivity_log_of_nonpositive [of "[0, 1, 2]" "[2, 1, 3]" 1 3] by simp

text \<open>
  The window of the times 0, 1 with the values 2, 1: the exponent is NaN and \<^verbatim>\<open>r_squared\<close>
  is the finite number 0.0.
\<close>

theorem diffusivity_two_samples_r_squared_zero:
  "diffusivity [Fin 0, Fin 1] [Fin 2, Fin 1] 3 = Inr (Fin (- 1 / 6), Fin 0, NaN, Fin 2, Fin 0)"
proof -
  have l1: "linregress [Fin 0] [NaN] = Inr \<lparr>slope = NaN, intercept = NaN, rvalue = Fin 0, stderr = NaN\<rparr>"
    by (simp add: linregress_def np_amax_def np_amin_def cov_entry_def centered_def np_mean_def
        np_sum_def fsub_def)
  have l2: "\<exists>r. linregress [Fin 0, Fin 1] [Fin 2, Fin 1] =
      Inr \<lparr>slope = Fin (- 1), intercept = Fin 2, rvalue = r, stderr = Fin 0\<rparr>"
    by (simp add: linregress_def np_amax_def np_amin_def cov_entry_def centered_def np_mean_def
        np_sum_def fsub_def fmax2_def fmin2_def Let_def)
  then obtain r where l2': "linregress [Fin 0, Fin 1] [Fin 2, Fin 1] =
      Inr \<lparr>slope = Fin (- 1), intercept = Fin 2, rvalue = r, stderr = Fin 0\<rparr>" by blast
  show ?thesis
    by (simp add: diffusivity_def fsub_def l1 l2')
qed

section \<open>Extrema analysis and Debye-Waller extractor\<close>

text \<open>
  C9. When the number of critical points that remain after the magnitude cutoff exceeds
  \<^verbatim>\<open>error_length\<close>, \<^verbatim>\<open>pull_extrema\<close> returns no extrema: it raises a ValueError whose
  message gives the number of extrema found and advises smoothing with \<^verbatim>\<open>smooth_sigma\<close>.
\<close>

theorem pull_extrema_too_many:
  assumes "ius xarray (case smooth_sigma of None \<Rightarrow> yarray | Some s \<Rightarrow> gf yarray s) 4 = Inr spline"
      and "error_length
             < int (length (filter (\<lambda>x. extrema_cutoff < \<bar>call spline x\<bar>) (roots (derivative spline))))"
  shows "pull_extrema ius gf xarray yarray smooth_sigma error_length extrema_cutoff =
     Inl (ValueError (''Found '' @
        show_nat (length (filter (\<lambda>x. extrema_cutoff < \<bar>call spline x\<bar>) (roots (derivative spline)))) @
        '' extrema, consider smoothing the data with `smooth_sigma` option.''))"
  using assms by (simp add: pull_extrema_def Let_def)

lemma example_spline_sel:
  "call example_spline = (\<lambda>x. 0)"
  "roots (derivative example_spline) = [0, 1]"
  "call (derivative example_spline) = (\<lambda>x. x)"
  "roots (derivative (derivative example_spline)) = [0, 1]"
  "call (derivative (derivative (derivative example_spline))) = (\<lambda>x. 1)"
  by (simp_all add: example_spline_def)

lemma show_nat_2: "show_nat (Suc (Suc 0)) = ''2''"
  by (simp add: show_nat.simps)

theorem pull_extrema_too_many_witness:
  "pull_extrema example_fit example_smoother [] [] None 1 (- 1) =
     Inl (ValueError ''Found 2 extrema, consider smoothing the data with `smooth_sigma` option.'')"
  using pull_extrema_too_many [where ius = example_fit and xarray = "[]" and yarray = "[]"
      and smooth_sigma = None and gf = example_smoother and spline = example_spline
      and error_length = 1 and extrema_cutoff = "- 1"]
  by (simp add: example_fit_def example_spline_sel show_nat_2)

lemma dw_loop_char:
  assumes "i < n_min" "length dw = n_min" "length tau = n_min" "length mv = n_min"
  shows "dw_loop sp dsp conc rs (i, dw, tau, mv) =
     (let cs = take (n_min - i) (filter (\<lambda>r. 0 < call conc r) rs)
      in (i + length cs,
          take i dw @ map (\<lambda>c. Fin (10 powr call sp c)) cs @ drop (i + length cs) dw,
          take i tau @ map (\<lambda>c. Fin (10 powr c)) cs @ drop (i + length cs) tau,
          take i mv @ map (\<lambda>c. Fin (call dsp c)) cs @ drop (i + length cs) mv))"
  using assms
proof (induction rs arbitrary: i dw tau mv)
  case Nil
  then show ?case by simp
next
  case (Cons r rs)
  show ?case
  proof (cases "0 < call conc r")
    case False
    with Cons.prems Cons.IH [OF Cons.prems] show ?thesis by simp
  next
    case True
    note upd = take_Suc_conv_app_nth [of i] drop_update_cancel [of i]
    show ?thesis
    proof (cases "Suc i = n_min")
      case last: True
      then have "n_min - i = Suc 0" by simp
      with True last Cons.prems show ?thesis
        by (simp add: Let_def upd upd_conv_take_nth_drop)
    next
      case more: False
      with Cons.prems have lt: "Suc i < n_min" by simp
      have lens: "length (dw[i := Fin (10 powr call sp r)]) = n_min"
        "length (tau[i := Fin (10 powr r)]) = n_min"
        "length (mv[i := Fin (call dsp r)]) = n_min"
        using Cons.prems by simp_all
      from lt obtain m where m: "n_min - i = Suc m" "n_min - Suc i = m"
        by (metis Suc_diff_Suc Suc_lessD)
      show ?thesis
        using True more Cons.prems Cons.IH [OF lt lens]
        by (simp add: Let_def m upd)
    qed
  qed
qed

lemma dw_loop_candidates:
  "dw_loop sp (derivative sp) (derivative (derivative (derivative sp)))
      (roots (derivative (derivative sp)))
      (0, replicate n_min NaN, replicate n_min NaN, replicate n_min PInf) =
   (length (dw_candidates sp),
    map (\<lambda>c. Fin (10 powr call sp c)) (dw_candidates sp)
      @ replicate (n_min - length (dw_candidates sp)) NaN,
    map (\<lambda>c. Fin (10 powr c)) (dw_candidates sp)
      @ replicate (n_min - length (dw_candidates sp)) NaN,
    map (\<lambda>c. Fin (call (derivative sp) c)) (dw_candidates sp)
      @ replicate (n_min - length (dw_candidates sp)) PInf)"
proof -
  have "0 < n_min" by (simp add: n_min_def)
  from dw_loop_char [OF this, of "replicate n_min NaN" "replicate n_min NaN" "replicate n_min PInf"]
  show ?thesis
    by (simp add: Let_def dw_candidates_def)
qed

lemma where_from_first:
  assumes "\<exists>x\<in>set xs. P x"
  shows "\<exists>j js. where_from k P xs = (k + j) # js \<and> j < length xs \<and> P (xs ! j)"
  using assms
proof (induction xs arbitrary: k)
  case Nil
  then show ?case by simp
next
  case (Cons x xs)
  show ?case
  proof (cases "P x")
    case True
    then have "where_from k P (x # xs) = (k + 0) # where_from (Suc k) P xs
        \<and> 0 < length (x # xs) \<and> P ((x # xs) ! 0)" by simp
    then show ?thesis by blast
  next
    case False
    with Cons.prems have "\<exists>x\<in>set xs. P x" by simp
    from Cons.IH [OF this, of "Suc k"] obtain j js where
      "where_from (Suc k) P xs = (Suc k + j) # js" "j < length xs" "P (xs ! j)" by blast
    with False have "where_from k P (x # xs) = (k + Suc j) # js
        \<and> Suc j < length (x # xs) \<and> P ((x # xs) ! Suc j)" by simp
    then show ?thesis by blast
  qed
qed

lemma foldl_fmin2_PInf: "foldl fmin2 (Fin m) (replicate k PInf) = Fin m"
  by (induction k) (simp_all add: fmin2_def)

lemma foldl_fmin2_all_PInf: "foldl fmin2 PInf (replicate k PInf) = PInf"
  by (induction k) (simp_all add: fmin2_def)

lemma foldl_min_mem: "foldl min (a::real) zs \<in> set (a # zs)"
proof (induction zs arbitrary: a)
  case Nil
  show ?case by simp
next
  case (Cons z zs)
  from Cons [of "min a z"] show ?case by (auto simp: min_def split: if_splits)
qed

lemma np_amin_padded:
  "np_amin (map Fin (v # vs) @ replicate k PInf) = Fin (foldl min v vs)"
  by (simp add: np_amin_def foldl_fmin2_Fin foldl_fmin2_PInf)

text \<open>
  C6. When the preprocessing and the fit succeed and no root of the second derivative has
  a positive third derivative, \<^verbatim>\<open>debye_waller\<close> raises nothing: it returns (NaN, NaN) and
  emits the warning that the array contains no caged region.
\<close>

theorem debye_waller_no_candidate:
  assumes prep: "dw_prep gf time msd use_frac sigma_spline = Inr (logtime, logmsd)"
      and fit: "ius logtime logmsd 5 = Inr spline"
      and none: "dw_candidates spline = []"
  shows "debye_waller ius gf time msd use_frac sigma_spline = Inr ((NaN, NaN), [NoCagedRegion])"
proof -
  obtain m where m: "n_min = Suc m" by (simp add: n_min_def)
  have amin: "np_amin (replicate n_min PInf) = PInf"
    by (simp add: m np_amin_def foldl_fmin2_all_PInf)
  have "dw_select spline = Inr ((NaN, NaN), [NoCagedRegion])"
    unfolding dw_select_def Let_def dw_loop_candidates none
    by (simp add: amin) (simp add: m np_where_def)
  then show ?thesis
    by (simp add: debye_waller_def prep fit)
qed

text \<open>
  C5. When the preprocessing and the fit succeed and there is a candidate (a root of the
  second derivative of the quintic spline with a positive third derivative, the first
  \<^verbatim>\<open>n_min = 50\<close> of them being kept), the returned pair comes from a candidate whose
  first derivative is the smallest among the candidates: \<^verbatim>\<open>dw\<close> is 10 to the power of the
  spline there and \<^verbatim>\<open>tau\<close> is 10 to the power of its location; no warning is emitted.
\<close>

theorem debye_waller_deepest_candidate:
  assumes prep: "dw_prep gf time msd use_frac sigma_spline = Inr (logtime, logmsd)"
      and fit: "ius logtime logmsd 5 = Inr spline"
      and some: "dw_candidates spline \<noteq> []"
  shows "\<exists>c\<in>set (dw_candidates spline).
           (\<forall>c'\<in>set (dw_candidates spline).
               call (derivative spline) c \<le> call (derivative spline) c')
           \<and> debye_waller ius gf time msd use_frac sigma_spline
               = Inr ((Fin (10 powr call spline c), Fin (10 powr c)), [])"
proof -
  let ?cs = "dw_candidates spline"
  let ?k = "n_min - length ?cs"
  define vs where "vs = map (call (derivative spline)) ?cs"
  from some obtain v0 vrest where v: "vs = v0 # vrest" by (cases ?cs) (auto simp: vs_def)
  define m where "m = foldl min v0 vrest"
  let ?mv = "map (\<lambda>c. Fin (call (derivative spline) c)) ?cs @ replicate ?k PInf"
  have mv: "?mv = map Fin vs @ replicate ?k PInf" by (simp add: vs_def)
  have amin: "np_amin ?mv = Fin m"
    unfolding mv v m_def by (rule np_amin_padded)
  have m_mem: "m \<in> set vs" unfolding m_def v by (rule foldl_min_mem)
  have m_le: "\<forall>x\<in>set vs. m \<le> x"
    unfolding m_def v using foldl_min_le [of v0 vrest] by simp
  have "Fin m \<in> set ?mv \<and> feq (Fin m) (Fin m)"
    unfolding mv using m_mem by simp
  then have "\<exists>x\<in>set ?mv. feq x (Fin m)" by blast
  from where_from_first [OF this, of 0] obtain j js where
    w: "np_where (\<lambda>x. feq x (Fin m)) ?mv = j # js" and jl: "j < length ?mv"
    and jq: "feq (?mv ! j) (Fin m)"
    by (auto simp: np_where_def)
  have jcs: "j < length ?cs"
  proof (rule ccontr)
    assume "\<not> j < length ?cs"
    with jl have "?mv ! j = PInf" by (simp add: nth_append)
    with jq show False by simp
  qed
  then have vj: "call (derivative spline) (?cs ! j) = m"
    using jq by (simp add: nth_append)
  have c_mem: "?cs ! j \<in> set ?cs" using jcs by simp
  have least: "\<forall>c'\<in>set ?cs. call (derivative spline) (?cs ! j) \<le> call (derivative spline) c'"
    using m_le by (simp add: vj vs_def)
  have "dw_select spline =
      Inr ((Fin (10 powr call spline (?cs ! j)), Fin (10 powr (?cs ! j))), [])"
    unfolding dw_select_def Let_def dw_loop_candidates
    using jcs by (simp add: amin w nth_append)
  then have "debye_waller ius gf time msd use_frac sigma_spline =
      Inr ((Fin (10 powr call spline (?cs ! j)), Fin (10 powr (?cs ! j))), [])"
    by (simp add: debye_waller_def prep fit)
  with c_mem least show ?thesis by blast
qed

lemma example_dw_prep:
  "dw_prep example_smoother [Fin 1, Fin 10] [Fin 1, Fin 10] 1 None = Inr ([Fin 0, Fin 1], [Fin 0, Fin 1])"
  by (simp add: dw_prep_def truncate_frac_def py_int_def py_slice_def slice_index_def Let_def)

lemma example_candidates: "dw_candidates example_spline = [0, 1]"
  by (simp add: dw_candidates_def example_spline_sel n_min_def)

lemma flat_candidates: "dw_candidates flat_spline = []"
  by (simp add: dw_candidates_def flat_spline_def)

theorem debye_waller_no_candidate_witness:
  "debye_waller flat_fit example_smoother [Fin 1, Fin 10] [Fin 1, Fin 10] 1 None
     = Inr ((NaN, NaN), [NoCagedRegion])"
  using debye_waller_no_candidate [OF example_dw_prep _ flat_candidates, of flat_fit]
  by (simp add: flat_fit_def)

theorem debye_waller_deepest_candidate_witness:
  "debye_waller example_fit example_smoother [Fin 1, Fin 10] [Fin 1, Fin 10] 1 None
     = Inr ((Fin 1, Fin 1), [])"
proof -
  have fit: "example_fit [Fin 0, Fin 1] [Fin 0, Fin 1] 5 = Inr example_spline"
    by (simp add: example_fit_def)
  have ne: "dw_candidates example_spline \<noteq> []" by (simp add: example_candidates)
  from debye_waller_deepest_candidate [where ius = example_fit, OF example_dw_prep fit ne]
  obtain c where c: "c \<in> set [0, 1::real]" "\<forall>c'\<in>set [0, 1::real]. c \<le> c'"
    and r: "debye_waller example_fit example_smoother [Fin 1, Fin 10] [Fin 1, Fin 10] 1 None
      = Inr ((Fin (10 powr call example_spline c), Fin (10 powr c)), [])"
    unfolding example_candidates example_spline_sel by blast
  from c have "c = 0" by auto
  with r show ?thesis by (simp add: example_spline_sel)
qed

section \<open>Autocorrelation: the three modes\<close>

subsection \<open>Sums of roots of unity\<close>



subsection \<open>The inverse transform of the power spectrum\<close>




subsection \<open>The mode \<^verbatim>\<open>fft\<close>\<close>





subsection \<open>The modes \<^verbatim>\<open>numpy\<close> and \<^verbatim>\<open>loop\<close>\<close>










section \<open>MSD estimator: a particle at rest, and the standard error\<close>














end
